theory Spec2Isabelle
  imports Main "HOL-Library.Word"
begin

section \<open>JavaScript strings\<close>

text \<open>
  A JavaScript string is a sequence of UTF-16 code units. ASCII literals of the
  source are written through \<open>ascii\<close>; the Korean messages of the step catalog are
  given by their code units.
\<close>

type_synonym jsstring = "16 word list"

definition ascii :: "string \<Rightarrow> jsstring" where
  "ascii cs = map of_char cs"

text \<open>
  The decimal digits of a non-negative integer, as the template literal
  \<^verbatim>\<open>`step-${stepIndex}`\<close> converts the number.
\<close>

fun show_nat :: "nat \<Rightarrow> jsstring" where
  "show_nat n =
     (if n < 10 then [of_nat (48 + n)]
      else show_nat (n div 10) @ [of_nat (48 + n mod 10)])"

declare show_nat.simps [simp del]

text \<open>
  \<^verbatim>\<open>String.prototype.trim\<close> strips the code units that ECMAScript calls WhiteSpace or
  LineTerminator from both ends. A string is truthy when it is not empty.
\<close>

definition isWhiteSpace :: "16 word \<Rightarrow> bool" where
  "isWhiteSpace c \<longleftrightarrow>
     c = 0x0009 \<or> c = 0x000A \<or> c = 0x000B \<or> c = 0x000C \<or> c = 0x000D \<or>
     c = 0x0020 \<or> c = 0x00A0 \<or> c = 0x1680 \<or>
     (0x2000 \<le> c \<and> c \<le> 0x200A) \<or>
     c = 0x2028 \<or> c = 0x2029 \<or> c = 0x202F \<or> c = 0x205F \<or>
     c = 0x3000 \<or> c = 0xFEFF"

definition trim :: "jsstring \<Rightarrow> jsstring" where
  "trim s = rev (dropWhile isWhiteSpace (rev (dropWhile isWhiteSpace s)))"

definition truthy :: "jsstring \<Rightarrow> bool" where
  "truthy s \<longleftrightarrow> s \<noteq> []"

section \<open>MagicCanvas: the prompt screen\<close>

text \<open>
  \<open>handleDeploy\<close> of \<^verbatim>\<open>MagicCanvas.tsx\<close>. The result is the argument with which
  \<open>onDeploy\<close> is called, or \<open>None\<close> when it is not called.
\<close>

definition handleDeploy :: "jsstring \<Rightarrow> bool \<Rightarrow> jsstring option" where
  "handleDeploy prompt isDeploying =
     (if truthy (trim prompt) \<and> \<not> isDeploying then Some prompt else None)"

text \<open>The \<^verbatim>\<open>disabled\<close> attribute of the deploy button.\<close>

definition buttonDisabled :: "jsstring \<Rightarrow> bool \<Rightarrow> bool" where
  "buttonDisabled prompt isDeploying \<longleftrightarrow> \<not> truthy (trim prompt) \<or> isDeploying"

section \<open>DeploymentLogs: the step engine\<close>

subsection \<open>Data\<close>

datatype icon = Zap | Terminal | GitBranch | Server | Shield | Globe | CheckCircle

record Step =
  message :: jsstring
  details :: jsstring
  icon :: icon
  duration :: nat

record DeploymentResult =
  liveUrl :: jsstring
  sourceRepo :: jsstring
  configRepo :: jsstring
  services :: "jsstring list"
  status :: jsstring

datatype status = Pending | Running | Completed | Error

record LogEntry =
  entry_id :: jsstring
  message :: jsstring
  status :: status
  timestamp :: nat
  icon :: icon
  details :: "jsstring option"

record Props =
  isActive :: bool
  prompt :: jsstring

definition deploymentSteps :: "Step list" where
  "deploymentSteps =
   [
    \<lparr>Step.message =
       [0xC694, 0xAD6C, 0xC0AC, 0xD56D, 0x0020, 0xBD84, 0xC11D, 0x0020,
        0xC911, 0x002E, 0x002E, 0x002E],
     Step.details =
       [0x0047, 0x006F, 0x006F, 0x0067, 0x006C, 0x0065, 0x0020, 0x0047,
        0x0065, 0x006D, 0x0069, 0x006E, 0x0069, 0x0020, 0x0041, 0x0050,
        0x0049, 0xB85C, 0x0020, 0xC790, 0xC5F0, 0xC5B4, 0x0020, 0xD574, 0xC11D],
     Step.icon = Zap, duration = 2000\<rparr>,
    \<lparr>Step.message =
       [0xC124, 0xACC4, 0xB3C4, 0x0028, 0x0059, 0x0041, 0x004D, 0x004C,
        0x0029, 0x0020, 0xC0DD, 0xC131, 0x0020, 0xC644, 0xB8CC],
     Step.details =
       [0x004B, 0x0075, 0x0062, 0x0065, 0x0072, 0x006E, 0x0065, 0x0074,
        0x0065, 0x0073, 0x0020, 0x002B, 0x0020, 0x0049, 0x0073, 0x0074,
        0x0069, 0x006F, 0x0020, 0x002B, 0x0020, 0x0056, 0x0061, 0x0075,
        0x006C, 0x0074, 0x0020, 0xC124, 0xC815, 0x0020, 0xC790, 0xB3D9,
        0x0020, 0xC0DD, 0xC131],
     Step.icon = Terminal, duration = 3000\<rparr>,
    \<lparr>Step.message =
       [0x0047, 0x0069, 0x0074, 0x0020, 0xC800, 0xC7A5, 0xC18C, 0xC5D0,
        0x0020, 0xCEE4, 0xBC0B, 0x0020, 0xC911, 0x002E, 0x002E, 0x002E],
     Step.details =
       [0x0043, 0x006F, 0x006E, 0x0066, 0x0069, 0x0067, 0x0020, 0x0052,
        0x0065, 0x0070, 0x006F, 0xC5D0, 0x0020, 0xC778, 0xD504, 0xB77C,
        0x0020, 0xC124, 0xACC4, 0xB3C4, 0x0020, 0xC800, 0xC7A5],
     Step.icon = GitBranch, duration = 2000\<rparr>,
    \<lparr>Step.message =
       [0x0041, 0x0072, 0x0067, 0x006F, 0x0020, 0x0043, 0x0044, 0xAC00,
        0x0020, 0xB3D9, 0xAE30, 0xD654, 0xB97C, 0x0020, 0xC2DC, 0xC791,
        0xD588, 0xC2B5, 0xB2C8, 0xB2E4],
     Step.details =
       [0x0047, 0x0069, 0x0074, 0x004F, 0x0070, 0x0073, 0x0020, 0xAE30,
        0xBC18, 0x0020, 0xC790, 0xB3D9, 0x0020, 0xBC30, 0xD3EC, 0x0020,
        0xD2B8, 0xB9AC, 0xAC70],
     Step.icon = Server, duration = 4000\<rparr>,
    \<lparr>Step.message =
       [0x004B, 0x0075, 0x0062, 0x0065, 0x0072, 0x006E, 0x0065, 0x0074,
        0x0065, 0x0073, 0x0020, 0xD074, 0xB7EC, 0xC2A4, 0xD130, 0xC5D0,
        0x0020, 0xBC30, 0xD3EC, 0x0020, 0xC911, 0x002E, 0x002E, 0x002E],
     Step.details =
       [0x0050, 0x006F, 0x0064, 0x002C, 0x0020, 0x0053, 0x0065, 0x0072,
        0x0076, 0x0069, 0x0063, 0x0065, 0x002C, 0x0020, 0x0049, 0x006E,
        0x0067, 0x0072, 0x0065, 0x0073, 0x0073, 0x0020, 0xB9AC, 0xC18C,
        0xC2A4, 0x0020, 0xC0DD, 0xC131],
     Step.icon = Server, duration = 3000\<rparr>,
    \<lparr>Step.message =
       [0x0049, 0x0073, 0x0074, 0x0069, 0x006F, 0x0020, 0xBCF4, 0xC548,
        0x0020, 0xC815, 0xCC45, 0x0020, 0xC801, 0xC6A9, 0x0020, 0xC911,
        0x002E, 0x002E, 0x002E],
     Step.details =
       [0x006D, 0x0054, 0x004C, 0x0053, 0x0020, 0x002B, 0x0020, 0x0041,
        0x0075, 0x0074, 0x0068, 0x006F, 0x0072, 0x0069, 0x007A, 0x0061,
        0x0074, 0x0069, 0x006F, 0x006E, 0x0050, 0x006F, 0x006C, 0x0069,
        0x0063, 0x0079, 0x0020, 0xC790, 0xB3D9, 0x0020, 0xC124, 0xC815],
     Step.icon = Shield, duration = 2500\<rparr>,
    \<lparr>Step.message =
       [0xB3C4, 0xBA54, 0xC778, 0x0020, 0xC5F0, 0xACB0, 0x0020, 0xBC0F,
        0x0020, 0x0053, 0x0053, 0x004C, 0x0020, 0xC778, 0xC99D, 0xC11C,
        0x0020, 0xBC1C, 0xAE09, 0x002E, 0x002E, 0x002E],
     Step.details =
       [0x004C, 0x0065, 0x0074, 0x0027, 0x0073, 0x0020, 0x0045, 0x006E,
        0x0063, 0x0072, 0x0079, 0x0070, 0x0074, 0x0020, 0xC790, 0xB3D9,
        0x0020, 0xC778, 0xC99D, 0xC11C, 0x0020, 0x002B, 0x0020, 0x0047,
        0x0061, 0x0074, 0x0065, 0x0077, 0x0061, 0x0079, 0x0020, 0xC124, 0xC815],
     Step.icon = Globe, duration = 3000\<rparr>,
    \<lparr>Step.message =
       [0xBC30, 0xD3EC, 0x0020, 0xC644, 0xB8CC, 0x0021, 0x0020, 0xD83C, 0xDF89],
     Step.details =
       [0xBAA8, 0xB4E0, 0x0020, 0xC11C, 0xBE44, 0xC2A4, 0xAC00, 0x0020,
        0xC815, 0xC0C1, 0x0020, 0xB3D9, 0xC791, 0xD558, 0xACE0, 0x0020,
        0xC788, 0xC2B5, 0xB2C8, 0xB2E4],
     Step.icon = CheckCircle, duration = 1000\<rparr>
   ]"

text \<open>The object literal passed to \<open>onComplete\<close>.\<close>

definition resultPayload :: DeploymentResult where
  "resultPayload =
     \<lparr>liveUrl = ascii ''https://chat.my-app.com'',
      sourceRepo = ascii ''https://github.com/tone-platform/my-chat-app'',
      configRepo = ascii ''https://github.com/tone-platform/my-chat-app-config'',
      services = [ascii ''Frontend'', ascii ''Backend'', ascii ''Redis'', ascii ''Database''],
      DeploymentResult.status = ascii ''deployed''\<rparr>"

subsection \<open>Timers and the component state\<close>

text \<open>
  The three closures that the effect hands to \<^verbatim>\<open>setTimeout\<close>. Each run of the effect
  has its own variable \<^verbatim>\<open>stepIndex\<close>; a closure names it by the number of the run.
  \<^item> \<open>CompleteStep r i\<close>: the closure of lines 357 to 367, which holds \<^verbatim>\<open>logEntry.id\<close>;
  \<^item> \<open>ProcessStep r\<close>: \<^verbatim>\<open>processStep\<close> itself, scheduled after the settle delay;
  \<^item> \<open>CallOnComplete\<close>: the closure of lines 330 to 338.
  The number \<open>r\<close> in a closure is that of the run that made it, so the variable it
  names exists whenever the closure is called.
\<close>

datatype callback = CompleteStep nat jsstring | ProcessStep nat | CallOnComplete

record timer =
  due :: nat
  callback :: callback

text \<open>
  The state of a mounted component: the two \<^verbatim>\<open>useState\<close> cells, the variable
  \<^verbatim>\<open>stepIndex\<close> of every run of the effect, the timers not fired yet, the clock in
  milliseconds, and the calls of \<open>onComplete\<close> made so far.
\<close>

record engine =
  logs :: "LogEntry list"
  currentStep :: nat
  stepIndex :: "nat list"
  timers :: "timer list"
  now :: nat
  onComplete_calls :: "DeploymentResult list"

definition mount :: "nat \<Rightarrow> engine" where
  "mount t0 = \<lparr>logs = [], currentStep = 0, stepIndex = [], timers = [], now = t0,
     onComplete_calls = []\<rparr>"

definition setTimeout :: "callback \<Rightarrow> nat \<Rightarrow> engine \<Rightarrow> engine" where
  "setTimeout cb delay s = s\<lparr>timers := timers s @ [\<lparr>due = now s + delay, callback = cb\<rparr>]\<rparr>"

subsection \<open>The effect\<close>

text \<open>The updater of lines 358 to 362.\<close>

definition markCompleted :: "jsstring \<Rightarrow> LogEntry list \<Rightarrow> LogEntry list" where
  "markCompleted i prev =
     map (\<lambda>log. if entry_id log = i then log\<lparr>status := Completed\<rparr> else log) prev"

definition step_id :: "nat \<Rightarrow> jsstring" where
  "step_id i = ascii ''step-'' @ show_nat i"

definition processStep :: "nat \<Rightarrow> engine \<Rightarrow> engine" where
  "processStep r s =
     (let i = stepIndex s ! r in
      if i \<ge> length deploymentSteps then setTimeout CallOnComplete 1000 s
      else
        let step = deploymentSteps ! i;
            logEntry = \<lparr>entry_id = step_id i, message = Step.message step,
              status = Running, timestamp = now s, icon = Step.icon step,
              details = Some (Step.details step)\<rparr>
        in setTimeout (CompleteStep r (entry_id logEntry)) (duration step)
             (s\<lparr>logs := logs s @ [logEntry], currentStep := i\<rparr>))"

definition completeStep :: "nat \<Rightarrow> jsstring \<Rightarrow> engine \<Rightarrow> engine" where
  "completeStep r i s =
     setTimeout (ProcessStep r) 500
       (s\<lparr>logs := markCompleted i (logs s),
          stepIndex := (stepIndex s)[r := stepIndex s ! r + 1]\<rparr>)"

definition callOnComplete :: "engine \<Rightarrow> engine" where
  "callOnComplete s = s\<lparr>onComplete_calls := onComplete_calls s @ [resultPayload]\<rparr>"

text \<open>
  The body of \<^verbatim>\<open>useEffect\<close>: it returns no cleanup, so the timers of an earlier run
  stay in the queue.
\<close>

definition effect :: "Props \<Rightarrow> engine \<Rightarrow> engine" where
  "effect props s =
     (if \<not> isActive props then s
      else
        let r = length (stepIndex s) in
        processStep r (s\<lparr>logs := [], currentStep := 0, stepIndex := stepIndex s @ [0]\<rparr>))"

subsection \<open>Firing timers\<close>

fun run_callback :: "callback \<Rightarrow> engine \<Rightarrow> engine" where
  "run_callback (CompleteStep r i) s = completeStep r i s"
| "run_callback (ProcessStep r) s = processStep r s"
| "run_callback CallOnComplete s = callOnComplete s"

text \<open>Timer \<open>k\<close> of the queue fires when the clock shows \<open>t\<close>.\<close>

definition fire :: "nat \<Rightarrow> nat \<Rightarrow> engine \<Rightarrow> engine" where
  "fire k t s =
     run_callback (callback (timers s ! k))
       (s\<lparr>timers := take k (timers s) @ drop (Suc k) (timers s), now := t\<rparr>)"

text \<open>
  Any execution: some pending timer fires, not before it is due, and the clock
  does not go back.
\<close>

inductive step :: "engine \<Rightarrow> engine \<Rightarrow> bool" where
  fireI: "k < length (timers s) \<Longrightarrow> due (timers s ! k) \<le> t \<Longrightarrow> now s \<le> t \<Longrightarrow> step s (fire k t s)"

text \<open>
  A run: the states that follow an activation of a component that was in state \<open>b\<close>.
\<close>

inductive reachable :: "Props \<Rightarrow> engine \<Rightarrow> engine \<Rightarrow> bool" for props :: Props and b :: engine where
  activated: "reachable props b (effect props b)"
| fired: "reachable props b s \<Longrightarrow> step s s' \<Longrightarrow> reachable props b s'"

text \<open>
  The ideal clock: the timer due first fires exactly when it is due, the one set
  first among equals.
\<close>

primrec min_due :: "nat \<Rightarrow> timer list \<Rightarrow> nat" where
  "min_due m [] = m"
| "min_due m (x # xs) = min_due (min m (due x)) xs"

primrec first_due :: "nat \<Rightarrow> timer list \<Rightarrow> nat" where
  "first_due d [] = 0"
| "first_due d (x # xs) = (if due x = d then 0 else Suc (first_due d xs))"

definition earliest :: "timer list \<Rightarrow> nat" where
  "earliest ts = first_due (min_due (due (hd ts)) ts) ts"

definition fire_next :: "engine \<Rightarrow> engine" where
  "fire_next s =
     (if timers s = [] then s
      else
        let k = earliest (timers s)
        in fire k (max (now s) (due (timers s ! k))) s)"

fun run :: "nat \<Rightarrow> engine \<Rightarrow> engine option" where
  "run 0 s = (if timers s = [] then Some s else None)"
| "run (Suc fuel) s = (if timers s = [] then Some s else run fuel (fire_next s))"

section \<open>Index: the screen switch\<close>

text \<open>
  The page shows the prompt screen in state \<^verbatim>\<open>"canvas"\<close>, with \<^verbatim>\<open>isDeploying\<close> false
  and its own \<^verbatim>\<open>handleDeploy\<close> as \<open>onDeploy\<close>, and the engine, active, in state
  \<^verbatim>\<open>"deploying"\<close>.
\<close>

datatype AppState = AppCanvas | AppDeploying | AppCompleted

record Index =
  appState :: AppState
  currentPrompt :: jsstring
  deploymentResult :: "DeploymentResult option"

definition Index_handleDeploy :: "jsstring \<Rightarrow> Index \<Rightarrow> Index" where
  "Index_handleDeploy p st = st\<lparr>currentPrompt := p, appState := AppDeploying\<rparr>"

definition Index_handleDeploymentComplete :: "DeploymentResult \<Rightarrow> Index \<Rightarrow> Index" where
  "Index_handleDeploymentComplete result st =
     st\<lparr>deploymentResult := Some result, appState := AppCompleted\<rparr>"

text \<open>A click on the deploy button of the prompt screen, as the page wires it.\<close>

definition clickDeploy :: "jsstring \<Rightarrow> Index \<Rightarrow> Index" where
  "clickDeploy p st =
     (case handleDeploy p False of None \<Rightarrow> st | Some q \<Rightarrow> Index_handleDeploy q st)"

section \<open>The phases of a run\<close>

text \<open>
  The entry that \<^verbatim>\<open>processStep\<close> builds for step \<open>k\<close> of the catalog, with a given
  status and timestamp.
\<close>

definition entry :: "nat \<Rightarrow> status \<Rightarrow> nat \<Rightarrow> LogEntry" where
  "entry k st ts =
     \<lparr>entry_id = step_id k, message = Step.message (deploymentSteps ! k), status = st,
      timestamp = ts, icon = Step.icon (deploymentSteps ! k),
      details = Some (Step.details (deploymentSteps ! k))\<rparr>"

text \<open>The log holds the entries of the first \<open>n\<close> steps, in order, all completed.\<close>

definition completed_upto :: "nat \<Rightarrow> LogEntry list \<Rightarrow> bool" where
  "completed_upto n ls \<longleftrightarrow>
     length ls = n \<and> (\<forall>k<n. ls ! k = entry k Completed (timestamp (ls ! k)))"

text \<open>
  Between two timers, a run that was activated in state \<open>b\<close> with no timer pending is
  in one of four phases: step \<open>i\<close> is running and its completion is pending; step
  \<open>i - 1\<close> is completed and the settle delay is pending; all steps are done and the
  call of \<open>onComplete\<close> is pending; \<open>onComplete\<close> has been called and nothing is
  pending. The variable \<^verbatim>\<open>stepIndex\<close> of the run is the last one, and the calls of
  \<open>onComplete\<close> made before the activation are kept.
\<close>

definition running_phase :: "engine \<Rightarrow> nat \<Rightarrow> engine \<Rightarrow> bool" where
  "running_phase b i s \<longleftrightarrow>
     i < length deploymentSteps \<and> stepIndex s = stepIndex b @ [i] \<and> currentStep s = i \<and>
     onComplete_calls s = onComplete_calls b \<and>
     (\<exists>d. timers s =
        [\<lparr>due = d, callback = CompleteStep (length (stepIndex b)) (step_id i)\<rparr>]) \<and>
     (\<exists>ls ts. logs s = ls @ [entry i Running ts] \<and> completed_upto i ls)"

definition settling_phase :: "engine \<Rightarrow> nat \<Rightarrow> engine \<Rightarrow> bool" where
  "settling_phase b i s \<longleftrightarrow>
     0 < i \<and> i \<le> length deploymentSteps \<and> stepIndex s = stepIndex b @ [i] \<and>
     currentStep s = i - 1 \<and> onComplete_calls s = onComplete_calls b \<and>
     (\<exists>d. timers s = [\<lparr>due = d, callback = ProcessStep (length (stepIndex b))\<rparr>]) \<and>
     completed_upto i (logs s)"

definition finishing_phase :: "engine \<Rightarrow> engine \<Rightarrow> bool" where
  "finishing_phase b s \<longleftrightarrow>
     stepIndex s = stepIndex b @ [length deploymentSteps] \<and>
     currentStep s = length deploymentSteps - 1 \<and>
     onComplete_calls s = onComplete_calls b \<and>
     (\<exists>d. timers s = [\<lparr>due = d, callback = CallOnComplete\<rparr>]) \<and>
     completed_upto (length deploymentSteps) (logs s)"

definition finished :: "engine \<Rightarrow> engine \<Rightarrow> bool" where
  "finished b s \<longleftrightarrow>
     stepIndex s = stepIndex b @ [length deploymentSteps] \<and>
     currentStep s = length deploymentSteps - 1 \<and>
     onComplete_calls s = onComplete_calls b @ [resultPayload] \<and> timers s = [] \<and>
     completed_upto (length deploymentSteps) (logs s)"

definition single_run :: "engine \<Rightarrow> engine \<Rightarrow> bool" where
  "single_run b s \<longleftrightarrow>
     (\<exists>i. running_phase b i s) \<or> (\<exists>i. settling_phase b i s) \<or>
     finishing_phase b s \<or> finished b s"

text \<open>The number of timers that a run still has to fire.\<close>

definition remaining :: "engine \<Rightarrow> nat" where
  "remaining s =
     (case timers s of
        [] \<Rightarrow> 0
      | x # _ \<Rightarrow>
          (case callback x of
             CompleteStep _ _ \<Rightarrow> 2 * (length deploymentSteps - last (stepIndex s)) + 1
           | ProcessStep _ \<Rightarrow> 2 * (length deploymentSteps - last (stepIndex s)) + 2
           | CallOnComplete \<Rightarrow> 1))"

section \<open>Concrete inputs\<close>

text \<open>A log with a completed and a running entry.\<close>

definition log2 :: "LogEntry list" where
  "log2 = [entry 0 Completed 0, entry 1 Running 2500]"

text \<open>An active component, with the empty prompt.\<close>

definition props0 :: Props where
  "props0 = \<lparr>isActive = True, prompt = []\<rparr>"

section \<open>The run under the ideal clock\<close>

text \<open>The time at which step \<open>k\<close> starts when the component is activated at \<open>t0\<close>.\<close>

primrec startAt :: "nat \<Rightarrow> nat \<Rightarrow> nat" where
  "startAt t0 0 = t0"
| "startAt t0 (Suc k) = startAt t0 k + duration (deploymentSteps ! k) + 500"

definition completed_log :: "nat \<Rightarrow> nat \<Rightarrow> LogEntry list" where
  "completed_log t0 n = map (\<lambda>k. entry k Completed (startAt t0 k)) [0..<n]"

text \<open>The state in which step \<open>i\<close> has just been started.\<close>

definition running_state :: "nat \<Rightarrow> nat \<Rightarrow> engine" where
  "running_state t0 i =
     \<lparr>logs = completed_log t0 i @ [entry i Running (startAt t0 i)],
      currentStep = i, stepIndex = [i],
      timers = [\<lparr>due = startAt t0 i + duration (deploymentSteps ! i),
                 callback = CompleteStep 0 (step_id i)\<rparr>],
      now = startAt t0 i, onComplete_calls = []\<rparr>"

text \<open>The state in which step \<open>i\<close> has just been completed.\<close>

definition settling_state :: "nat \<Rightarrow> nat \<Rightarrow> engine" where
  "settling_state t0 i =
     \<lparr>logs = completed_log t0 (Suc i), currentStep = i, stepIndex = [Suc i],
      timers = [\<lparr>due = startAt t0 (Suc i), callback = ProcessStep 0\<rparr>],
      now = startAt t0 i + duration (deploymentSteps ! i),
      onComplete_calls = []\<rparr>"

text \<open>The state in which the last settle delay has just passed.\<close>

definition finishing_state :: "nat \<Rightarrow> engine" where
  "finishing_state t0 =
     \<lparr>logs = completed_log t0 (length deploymentSteps),
      currentStep = length deploymentSteps - 1, stepIndex = [length deploymentSteps],
      timers = [\<lparr>due = startAt t0 (length deploymentSteps) + 1000,
                 callback = CallOnComplete\<rparr>],
      now = startAt t0 (length deploymentSteps), onComplete_calls = []\<rparr>"

text \<open>The state in which \<open>onComplete\<close> has just been called.\<close>

definition final_state :: "nat \<Rightarrow> engine" where
  "final_state t0 =
     \<lparr>logs = completed_log t0 (length deploymentSteps),
      currentStep = length deploymentSteps - 1, stepIndex = [length deploymentSteps],
      timers = [], now = startAt t0 (length deploymentSteps) + 1000,
      onComplete_calls = [resultPayload]\<rparr>"

section \<open>More concrete inputs\<close>

text \<open>The page before any prompt is submitted.\<close>

definition Index0 :: Index where
  "Index0 = \<lparr>appState = AppCanvas, currentPrompt = [], deploymentResult = None\<rparr>"

text \<open>
  A second activation while the first run is in flight: the first run has completed
  step 0 and waits for the settle delay.
\<close>

definition restarted :: engine where
  "restarted = effect props0 (settling_state 0 0)"


text \<open>
  The run that follows the second activation \<open>restarted\<close>, under the ideal clock.
\<close>

text \<open>The state after 30 timers: the first run has just called \<open>onComplete\<close>.\<close>

definition restarted_called :: engine where
  "restarted_called =
     \<lparr>logs = [entry 0 Completed 2000, entry 1 Completed 2500, entry 1 Completed 4500,
              entry 2 Completed 6000, entry 2 Completed 8000, entry 3 Completed 8500,
              entry 3 Completed 10500, entry 4 Completed 13000,
              entry 4 Completed 15000, entry 5 Completed 16500,
              entry 5 Completed 18500, entry 6 Completed 19500,
              entry 6 Completed 21500, entry 7 Completed 23000, entry 7 Running 25000],
      currentStep = 7, stepIndex = [8, 7],
      timers = [\<lparr>due = 26000, callback = CompleteStep 1 (step_id 7)\<rparr>],
      now = 25500, onComplete_calls = [resultPayload]\<rparr>"

text \<open>The state after 31 timers: the second run has just completed its last step.\<close>

definition restarted_completed :: engine where
  "restarted_completed =
     \<lparr>logs = [entry 0 Completed 2000, entry 1 Completed 2500, entry 1 Completed 4500,
              entry 2 Completed 6000, entry 2 Completed 8000, entry 3 Completed 8500,
              entry 3 Completed 10500, entry 4 Completed 13000,
              entry 4 Completed 15000, entry 5 Completed 16500,
              entry 5 Completed 18500, entry 6 Completed 19500,
              entry 6 Completed 21500, entry 7 Completed 23000, entry 7 Completed 25000],
      currentStep = 7, stepIndex = [8, 8],
      timers = [\<lparr>due = 26500, callback = ProcessStep 1\<rparr>],
      now = 26000, onComplete_calls = [resultPayload]\<rparr>"

text \<open>The state after 33 timers, when no timer is pending any more.\<close>

definition restarted_final :: engine where
  "restarted_final =
     \<lparr>logs = [entry 0 Completed 2000, entry 1 Completed 2500, entry 1 Completed 4500,
              entry 2 Completed 6000, entry 2 Completed 8000, entry 3 Completed 8500,
              entry 3 Completed 10500, entry 4 Completed 13000,
              entry 4 Completed 15000, entry 5 Completed 16500,
              entry 5 Completed 18500, entry 6 Completed 19500,
              entry 6 Completed 21500, entry 7 Completed 23000, entry 7 Completed 25000],
      currentStep = 7, stepIndex = [8, 8],
      timers = [],
      now = 27500, onComplete_calls = [resultPayload, resultPayload]\<rparr>"

section \<open>Basic facts\<close>


lemma length_deploymentSteps: "length deploymentSteps = 8"
  by (simp add: deploymentSteps_def)

lemma show_nat_nonempty: "show_nat n \<noteq> []"
  by (subst show_nat.simps) simp

lemma digit_inj:
  assumes "a < 10" "b < 10" "(of_nat (48 + a) :: 16 word) = of_nat (48 + b)"
  shows "a = b"
proof -
  from assms(3) have "take_bit 16 (48 + a) = take_bit 16 (48 + b)"
    by (simp only: word_of_nat_eq_iff len_of_numeral_defs) simp
  moreover have "take_bit 16 (48 + a) = 48 + a"
    using assms(1) by (simp only: take_bit_nat_eq_self_iff) simp
  moreover have "take_bit 16 (48 + b) = 48 + b"
    using assms(2) by (simp only: take_bit_nat_eq_self_iff) simp
  ultimately show ?thesis by simp
qed

lemma show_nat_last: "last (show_nat n) = of_nat (48 + n mod 10)"
  by (subst show_nat.simps) simp

lemma show_nat_butlast:
  "butlast (show_nat n) = (if n < 10 then [] else show_nat (n div 10))"
  by (subst show_nat.simps) simp

lemma show_nat_inj: "show_nat n = show_nat m \<Longrightarrow> n = m"
proof (induction n arbitrary: m rule: show_nat.induct)
  case (1 n)
  from "1.prems" have l: "last (show_nat n) = last (show_nat m)"
    and b: "butlast (show_nat n) = butlast (show_nat m)" by simp_all
  from l have d: "n mod 10 = m mod 10"
    by (auto simp: show_nat_last intro: digit_inj)
  show ?case
  proof (cases "n < 10")
    case True
    with b have "m < 10"
      using show_nat_nonempty [of "m div 10"] by (auto simp: show_nat_butlast split: if_splits)
    with True d show ?thesis by simp
  next
    case False
    with b have m: "\<not> m < 10" and e: "show_nat (n div 10) = show_nat (m div 10)"
      using show_nat_nonempty [of "n div 10"] by (auto simp: show_nat_butlast split: if_splits)
    from "1.IH" [OF False e] have "n div 10 = m div 10" .
    with d show ?thesis by (metis div_mult_mod_eq)
  qed
qed

lemma step_id_inj: "step_id i = step_id j \<longleftrightarrow> i = j"
  by (auto simp: step_id_def dest: show_nat_inj)


lemma completed_upto_0: "completed_upto 0 []"
  by (simp add: completed_upto_def)

lemma completed_upto_snoc:
  "completed_upto i ls \<Longrightarrow> completed_upto (Suc i) (ls @ [entry i Completed ts])"
  by (auto simp: completed_upto_def nth_append less_Suc_eq entry_def)

lemma markCompleted_running:
  assumes "completed_upto i ls"
  shows "markCompleted (step_id i) (ls @ [entry i Running ts]) = ls @ [entry i Completed ts]"
proof -
  have "\<And>x. x \<in> set ls \<Longrightarrow> entry_id x \<noteq> step_id i"
  proof -
    fix x assume "x \<in> set ls"
    then obtain k where k: "k < length ls" "ls ! k = x" by (auto simp: in_set_conv_nth)
    with assms have "x = entry k Completed (timestamp x)" "k < i"
      by (auto simp: completed_upto_def)
    then have "entry_id x = step_id k" "k \<noteq> i" by (auto simp: entry_def) (metis LogEntry.select_convs(1))
    then show "entry_id x \<noteq> step_id i" by (simp add: step_id_inj)
  qed
  then have "map (\<lambda>log. if entry_id log = step_id i then log\<lparr>status := Completed\<rparr> else log) ls = ls"
    by (simp add: map_idI)
  then show ?thesis by (simp add: markCompleted_def entry_def)
qed

lemma fire_single:
  "timers s = [x] \<Longrightarrow> step s s' \<Longrightarrow>
     \<exists>t. due x \<le> t \<and> now s \<le> t \<and> s' = run_callback (callback x) (s\<lparr>timers := [], now := t\<rparr>)"
  by (auto simp: step.simps fire_def)

lemma effect_running:
  "isActive props \<Longrightarrow> timers b = [] \<Longrightarrow> running_phase b 0 (effect props b)"
  by (simp add: effect_def processStep_def setTimeout_def running_phase_def
      length_deploymentSteps Let_def entry_def completed_upto_0)

lemma step_running:
  assumes "running_phase b i s" "step s s'"
  shows "settling_phase b (Suc i) s'"
proof -
  from assms(1) obtain d ls ts where
    i: "i < length deploymentSteps" and si: "stepIndex s = stepIndex b @ [i]"
    and cs: "currentStep s = i" and oc: "onComplete_calls s = onComplete_calls b"
    and tm: "timers s =
      [\<lparr>due = d, callback = CompleteStep (length (stepIndex b)) (step_id i)\<rparr>]"
    and lg: "logs s = ls @ [entry i Running ts]" and cu: "completed_upto i ls"
    by (auto simp: running_phase_def)
  from fire_single [OF tm assms(2)] obtain t where
    s': "s' = completeStep (length (stepIndex b)) (step_id i) (s\<lparr>timers := [], now := t\<rparr>)"
    by auto
  show ?thesis
    using i si cs oc lg cu
    by (simp add: s' completeStep_def setTimeout_def settling_phase_def
        markCompleted_running completed_upto_snoc)
qed

lemma step_settling:
  assumes "settling_phase b i s" "step s s'"
  shows "(i < length deploymentSteps \<and> running_phase b i s') \<or>
         (i = length deploymentSteps \<and> finishing_phase b s')"
proof -
  from assms(1) obtain d where
    i: "0 < i" "i \<le> length deploymentSteps" and si: "stepIndex s = stepIndex b @ [i]"
    and cs: "currentStep s = i - 1" and oc: "onComplete_calls s = onComplete_calls b"
    and tm: "timers s = [\<lparr>due = d, callback = ProcessStep (length (stepIndex b))\<rparr>]"
    and cu: "completed_upto i (logs s)"
    by (auto simp: settling_phase_def)
  from fire_single [OF tm assms(2)] obtain t where
    s': "s' = processStep (length (stepIndex b)) (s\<lparr>timers := [], now := t\<rparr>)" by auto
  show ?thesis
  proof (cases "i < length deploymentSteps")
    case True
    then show ?thesis
      using si cs oc cu
      by (simp add: s' processStep_def setTimeout_def running_phase_def Let_def entry_def)
  next
    case False
    with i have "i = length deploymentSteps" by simp
    then show ?thesis
      using si cs oc cu
      by (simp add: s' processStep_def setTimeout_def finishing_phase_def Let_def)
  qed
qed

lemma step_finishing:
  assumes "finishing_phase b s" "step s s'"
  shows "finished b s'"
proof -
  from assms(1) obtain d where
    tm: "timers s = [\<lparr>due = d, callback = CallOnComplete\<rparr>]"
    by (auto simp: finishing_phase_def)
  from fire_single [OF tm assms(2)] obtain t where
    s': "s' = callOnComplete (s\<lparr>timers := [], now := t\<rparr>)" by auto
  show ?thesis
    using assms(1) by (simp add: s' callOnComplete_def finishing_phase_def finished_def)
qed

lemma step_finished: "finished b s \<Longrightarrow> step s s' \<Longrightarrow> False"
  by (auto simp: finished_def step.simps)

lemma step_single_run: "single_run b s \<Longrightarrow> step s s' \<Longrightarrow> single_run b s'"
  unfolding single_run_def
  using step_running step_settling step_finishing step_finished by blast

lemma reachable_single_run:
  assumes "isActive props" and "timers b = []" and "reachable props b s"
  shows "single_run b s"
  using assms(3)
proof (induction rule: reachable.induct)
  case activated
  show ?case using effect_running [OF assms(1,2)] by (auto simp: single_run_def)
next
  case (fired s s')
  then show ?case using step_single_run by blast
qed

lemma fire_next_step: "timers s \<noteq> [] \<Longrightarrow> single_run b s \<Longrightarrow> step s (fire_next s)"
  unfolding single_run_def fire_next_def
  by (auto simp: running_phase_def settling_phase_def finishing_phase_def finished_def
      earliest_def Let_def intro!: step.intros)

lemma remaining_step:
  assumes "single_run b s" "step s s'"
  shows "remaining s = Suc (remaining s')"
proof -
  from assms(1) consider i where "running_phase b i s" | i where "settling_phase b i s"
    | "finishing_phase b s" | "finished b s"
    by (auto simp: single_run_def)
  then show ?thesis
  proof cases
    case 1
    from step_running [OF 1 assms(2)] 1 show ?thesis
      by (auto simp: remaining_def running_phase_def settling_phase_def)
  next
    case 2
    from step_settling [OF 2 assms(2)] 2 show ?thesis
      by (auto simp: remaining_def running_phase_def settling_phase_def finishing_phase_def)
  next
    case 3
    from step_finishing [OF 3 assms(2)] 3 show ?thesis
      by (auto simp: remaining_def finishing_phase_def finished_def)
  next
    case 4
    with assms(2) show ?thesis using step_finished by blast
  qed
qed

lemma remaining_0: "single_run b s \<Longrightarrow> remaining s = 0 \<longleftrightarrow> timers s = []"
  by (auto simp: single_run_def remaining_def running_phase_def settling_phase_def
      finishing_phase_def finished_def)

lemma remaining_effect:
  "isActive props \<Longrightarrow> timers b = [] \<Longrightarrow> remaining (effect props b) = 17"
  using effect_running [of props b]
  by (auto simp: remaining_def running_phase_def length_deploymentSteps)

lemma run_terminates:
  "single_run b s \<Longrightarrow> remaining s \<le> fuel \<Longrightarrow>
     \<exists>s'. run fuel s = Some s' \<and> (step ^^ remaining s) s s' \<and> finished b s'"
proof (induction fuel arbitrary: s)
  case 0
  then have "timers s = []" by (simp add: remaining_0)
  with 0 show ?case
    by (auto simp: single_run_def running_phase_def settling_phase_def finishing_phase_def)
next
  case (Suc fuel)
  show ?case
  proof (cases "timers s = []")
    case True
    with Suc.prems have "remaining s = 0" by (simp add: remaining_0)
    with True Suc.prems show ?thesis
      by (auto simp: single_run_def running_phase_def settling_phase_def finishing_phase_def)
  next
    case False
    with Suc.prems have st: "step s (fire_next s)" by (simp add: fire_next_step)
    then have sr: "single_run b (fire_next s)" using Suc.prems step_single_run by blast
    from remaining_step [OF Suc.prems(1) st] have r: "remaining s = Suc (remaining (fire_next s))" .
    with Suc.prems have "remaining (fire_next s) \<le> fuel" by simp
    from Suc.IH [OF sr this] obtain s' where
      s': "run fuel (fire_next s) = Some s'" "finished b s'"
      and p: "(step ^^ remaining (fire_next s)) (fire_next s) s'" by auto
    from st p have "(step ^^ Suc (remaining (fire_next s))) s s'"
      by (rule relpowp_Suc_I2)
    then have "(step ^^ remaining s) s s'" by (simp only: r)
    with False s' show ?thesis by simp
  qed
qed


section \<open>The run under the ideal clock: facts\<close>

lemma completed_log_upto: "completed_upto n (completed_log t0 n)"
  by (simp add: completed_upto_def completed_log_def entry_def)

lemma completed_log_Suc:
  "completed_log t0 (Suc n) = completed_log t0 n @ [entry n Completed (startAt t0 n)]"
  by (simp add: completed_log_def)

lemma effect_running_state:
  "isActive props \<Longrightarrow> effect props (mount t0) = running_state t0 0"
  by (simp add: effect_def mount_def processStep_def setTimeout_def running_state_def
      length_deploymentSteps Let_def entry_def completed_log_def)

lemma fire_next_single:
  "timers s = [x] \<Longrightarrow>
     fire_next s = run_callback (callback x) (s\<lparr>timers := [], now := max (now s) (due x)\<rparr>)"
  by (simp add: fire_next_def earliest_def fire_def)

lemma fire_next_running_state:
  "fire_next (running_state t0 i) = settling_state t0 i"
  by (subst fire_next_single [where x = "\<lparr>due = startAt t0 i + duration (deploymentSteps ! i),
          callback = CompleteStep 0 (step_id i)\<rparr>"])
    (simp_all add: running_state_def settling_state_def completeStep_def setTimeout_def
      markCompleted_running [OF completed_log_upto] completed_log_Suc)

lemma fire_next_settling_state:
  "Suc i < length deploymentSteps \<Longrightarrow>
     fire_next (settling_state t0 i) = running_state t0 (Suc i)"
  by (subst fire_next_single [where x = "\<lparr>due = startAt t0 (Suc i), callback = ProcessStep 0\<rparr>"])
    (simp_all add: running_state_def settling_state_def processStep_def setTimeout_def
      Let_def entry_def)

lemma fire_next_settling_state_last:
  assumes e: "Suc i = length deploymentSteps"
  shows "fire_next (settling_state t0 i) = finishing_state t0"
proof -
  have f: "finishing_state t0 =
      \<lparr>logs = completed_log t0 (Suc i), currentStep = i, stepIndex = [Suc i],
       timers = [\<lparr>due = startAt t0 (Suc i) + 1000, callback = CallOnComplete\<rparr>],
       now = startAt t0 (Suc i), onComplete_calls = []\<rparr>"
    by (simp add: finishing_state_def flip: e)
  show ?thesis
    unfolding f
    by (subst fire_next_single [where x = "\<lparr>due = startAt t0 (Suc i), callback = ProcessStep 0\<rparr>"])
      (simp_all add: settling_state_def processStep_def setTimeout_def Let_def flip: e)
qed

lemma fire_next_finishing_state: "fire_next (finishing_state t0) = final_state t0"
  by (subst fire_next_single [where x = "\<lparr>due = startAt t0 (length deploymentSteps) + 1000,
          callback = CallOnComplete\<rparr>"])
    (simp_all add: finishing_state_def final_state_def callOnComplete_def)

lemma timers_states:
  "timers (running_state t0 i) \<noteq> []" "timers (settling_state t0 i) \<noteq> []"
  "timers (finishing_state t0) \<noteq> []" "timers (final_state t0) = []"
  by (simp_all add: running_state_def settling_state_def finishing_state_def final_state_def)

lemma run_final_state: "run fuel (final_state t0) = Some (final_state t0)"
  by (cases fuel) (simp_all add: timers_states)

lemma run_running_state:
  "i < length deploymentSteps \<Longrightarrow>
     run (2 * (length deploymentSteps - i) + 1) (running_state t0 i) = Some (final_state t0)"
proof (induction "length deploymentSteps - i" arbitrary: i)
  case 0
  then show ?case by simp
next
  case (Suc n)
  have f: "2 * (length deploymentSteps - i) + 1 = Suc (Suc (2 * n + 1))"
    using Suc.hyps(2) by simp
  have r: "run (Suc (Suc (2 * n + 1))) (running_state t0 i) =
      run (Suc (2 * n + 1)) (settling_state t0 i)"
    by (simp add: fire_next_running_state timers_states)
  show ?case
  proof (cases "Suc i = length deploymentSteps")
    case True
    with Suc.hyps(2) have n: "n = 0" by simp
    have "run (Suc (2 * n + 1)) (settling_state t0 i) = Some (final_state t0)"
      unfolding n
      by (simp add: fire_next_settling_state_last [OF True] fire_next_finishing_state
          timers_states)
    with f r show ?thesis by simp
  next
    case False
    with Suc.prems have i: "Suc i < length deploymentSteps" by simp
    from Suc.hyps(2) have n: "n = length deploymentSteps - Suc i" by simp
    have "run (Suc (2 * n + 1)) (settling_state t0 i) =
        run (2 * n + 1) (running_state t0 (Suc i))"
      by (simp add: fire_next_settling_state [OF i] timers_states)
    also have "\<dots> = Some (final_state t0)"
      using Suc.hyps(1) [OF n i] n by simp
    finally show ?thesis using f r by simp
  qed
qed

lemma run_effect:
  "isActive props \<Longrightarrow> run 17 (effect props (mount t0)) = Some (final_state t0)"
  using run_running_state [of 0 t0]
  by (simp add: effect_running_state length_deploymentSteps)

lemma nth_duration:
  "duration (deploymentSteps ! 0) = 2000" "duration (deploymentSteps ! 1) = 3000"
  "duration (deploymentSteps ! 2) = 2000" "duration (deploymentSteps ! 3) = 4000"
  "duration (deploymentSteps ! 4) = 3000" "duration (deploymentSteps ! 5) = 2500"
  "duration (deploymentSteps ! 6) = 3000" "duration (deploymentSteps ! 7) = 1000"
  by (simp_all add: deploymentSteps_def)

lemma startAt_numeral:
  "startAt t0 (numeral n) =
     startAt t0 (pred_numeral n) + duration (deploymentSteps ! pred_numeral n) + 500"
  by (simp add: numeral_eq_Suc)

lemma startAt_values:
  "startAt t0 0 = t0" "startAt t0 1 = t0 + 2500" "startAt t0 2 = t0 + 6000"
  "startAt t0 3 = t0 + 8500" "startAt t0 4 = t0 + 13000" "startAt t0 5 = t0 + 16500"
  "startAt t0 6 = t0 + 19500" "startAt t0 7 = t0 + 23000" "startAt t0 8 = t0 + 24500"
  using nth_duration by (simp_all add: startAt_numeral)

lemma now_final_state: "now (final_state t0) = t0 + 25500"
  using startAt_values(9) [of t0] by (simp add: final_state_def length_deploymentSteps)

lemma timers_mount: "timers (mount t0) = []"
  by (simp add: mount_def)

lemma reachable_fire_next:
  assumes "isActive props" "timers b = []" "reachable props b s"
  shows "reachable props b (fire_next s)"
proof (cases "timers s = []")
  case True
  then show ?thesis using assms(3) by (simp add: fire_next_def)
next
  case False
  from reachable_single_run [OF assms] False have "step s (fire_next s)"
    by (simp add: fire_next_step)
  with assms(3) show ?thesis by (rule reachable.fired)
qed

lemma reachable_running_state:
  assumes "isActive props"
  shows "i < length deploymentSteps \<Longrightarrow> reachable props (mount t0) (running_state t0 i)"
proof (induction i)
  case 0
  show ?case
    using reachable.activated [of props "mount t0"] assms by (simp add: effect_running_state)
next
  case (Suc i)
  then have "reachable props (mount t0) (running_state t0 i)" by simp
  then have "reachable props (mount t0) (fire_next (fire_next (running_state t0 i)))"
    using assms reachable_fire_next timers_mount by blast
  with Suc.prems show ?case
    by (simp add: fire_next_running_state fire_next_settling_state)
qed

lemma reachable_settling_state:
  assumes "isActive props" "i < length deploymentSteps"
  shows "reachable props (mount t0) (settling_state t0 i)"
  using reachable_fire_next [OF assms(1) timers_mount reachable_running_state [OF assms]]
  by (simp add: fire_next_running_state)

lemma reachable_finishing_state:
  assumes "isActive props"
  shows "reachable props (mount t0) (finishing_state t0)"
proof -
  have "Suc 7 = length deploymentSteps" by (simp add: length_deploymentSteps)
  from fire_next_settling_state_last [OF this, of t0]
    reachable_fire_next [OF assms timers_mount reachable_settling_state [OF assms, of 7 t0]]
  show ?thesis by (simp add: length_deploymentSteps)
qed

lemma reachable_final_state:
  assumes "isActive props"
  shows "reachable props (mount t0) (final_state t0)"
  using reachable_fire_next [OF assms timers_mount reachable_finishing_state [OF assms, of t0]]
  by (simp add: fire_next_finishing_state)

lemma single_run_cases [consumes 1, case_names running settling finishing finished]:
  assumes "single_run b s"
  obtains i where "running_phase b i s" | i where "settling_phase b i s"
    | "finishing_phase b s" | "finished b s"
  using assms by (auto simp: single_run_def)

lemma completed_upto_nth:
  assumes "completed_upto n ls" "k < n"
  shows "entry_id (ls ! k) = step_id k"
    and "message (ls ! k) = Step.message (deploymentSteps ! k)"
    and "details (ls ! k) = Some (Step.details (deploymentSteps ! k))"
    and "icon (ls ! k) = Step.icon (deploymentSteps ! k)"
    and "status (ls ! k) = Completed"
proof -
  from assms have e: "ls ! k = entry k Completed (timestamp (ls ! k))"
    by (simp add: completed_upto_def)
  show "entry_id (ls ! k) = step_id k"
    using arg_cong [OF e, of entry_id] by (simp add: entry_def)
  show "message (ls ! k) = Step.message (deploymentSteps ! k)"
    using arg_cong [OF e, of message] by (simp add: entry_def)
  show "details (ls ! k) = Some (Step.details (deploymentSteps ! k))"
    using arg_cong [OF e, of details] by (simp add: entry_def)
  show "icon (ls ! k) = Step.icon (deploymentSteps ! k)"
    using arg_cong [OF e, of icon] by (simp add: entry_def)
  show "status (ls ! k) = Completed"
    using arg_cong [OF e, of status] by (simp add: entry_def)
qed

lemma completed_upto_length: "completed_upto n ls \<Longrightarrow> length ls = n"
  by (simp add: completed_upto_def)

lemma completed_upto_all: "completed_upto n ls \<Longrightarrow> e \<in> set ls \<Longrightarrow> status e = Completed"
  by (auto simp: in_set_conv_nth completed_upto_length dest: completed_upto_nth(5))

lemma completed_in_full:
  assumes "single_run b s" "length deploymentSteps \<le> last (stepIndex s)"
  shows "completed_upto (length deploymentSteps) (logs s)"
  using assms(1)
proof (cases rule: single_run_cases)
  case (running i)
  with assms(2) show ?thesis by (simp add: running_phase_def)
next
  case (settling i)
  with assms(2) show ?thesis by (auto simp: settling_phase_def)
next
  case finishing
  then show ?thesis by (simp add: finishing_phase_def)
next
  case finished
  then show ?thesis by (simp add: finished_def)
qed

lemma relpow_run:
  assumes "isActive props" "timers b = []"
  shows "(step ^^ n) (effect props b) s \<Longrightarrow> single_run b s \<and> remaining s + n = 17"
proof (induction n arbitrary: s)
  case 0
  then show ?case
    using assms effect_running [of props b] remaining_effect [of props b]
    by (auto simp: single_run_def)
next
  case (Suc n)
  then obtain u where u: "(step ^^ n) (effect props b) u" and st: "step u s"
    by auto
  from Suc.IH [OF u] have "single_run b u" "remaining u + n = 17" by simp_all
  with st step_single_run [of b u s] remaining_step [of b u s] show ?case by simp
qed

lemma relpow_reachable:
  "(step ^^ n) (effect props b) s \<Longrightarrow> reachable props b s"
proof (induction n arbitrary: s)
  case 0
  then show ?case using reachable.activated [of props b] by auto
next
  case (Suc n)
  then show ?case by (auto intro: reachable.fired)
qed

lemma relpow_final_state:
  assumes "isActive props"
  shows "(step ^^ 17) (effect props (mount t0)) (final_state t0)"
proof -
  have "single_run (mount t0) (effect props (mount t0))"
    using effect_running [OF assms timers_mount] by (auto simp: single_run_def)
  from run_terminates [OF this, of 17] remaining_effect [OF assms timers_mount, of t0]
  show ?thesis by (simp add: run_effect [OF assms])
qed

lemma single_run_calls:
  assumes "single_run b s"
  shows "onComplete_calls s =
    onComplete_calls b @ (if timers s = [] then [resultPayload] else [])"
  using assms
  by (cases rule: single_run_cases)
    (auto simp: running_phase_def settling_phase_def finishing_phase_def finished_def)

lemma single_run_called:
  assumes "single_run b s" "onComplete_calls s \<noteq> onComplete_calls b"
  shows "completed_upto (length deploymentSteps) (logs s)"
  using assms
  by (cases rule: single_run_cases)
    (auto simp: running_phase_def settling_phase_def finishing_phase_def finished_def)

lemma step_running_eq:
  assumes "running_phase b i s" "step s s'"
  shows "\<exists>t. s' =
    completeStep (length (stepIndex b)) (step_id i) (s\<lparr>timers := [], now := t\<rparr>)"
proof -
  from assms(1) obtain d where
    "timers s = [\<lparr>due = d, callback = CompleteStep (length (stepIndex b)) (step_id i)\<rparr>]"
    by (auto simp: running_phase_def)
  from fire_single [OF this assms(2)] show ?thesis by auto
qed

lemma step_settling_eq:
  assumes "settling_phase b i s" "step s s'"
  shows "\<exists>t. s' = processStep (length (stepIndex b)) (s\<lparr>timers := [], now := t\<rparr>)"
proof -
  from assms(1) obtain d where
    "timers s = [\<lparr>due = d, callback = ProcessStep (length (stepIndex b))\<rparr>]"
    by (auto simp: settling_phase_def)
  from fire_single [OF this assms(2)] show ?thesis by auto
qed

lemma step_finishing_eq:
  assumes "finishing_phase b s" "step s s'"
  shows "\<exists>t. s' = callOnComplete (s\<lparr>timers := [], now := t\<rparr>)"
proof -
  from assms(1) obtain d where "timers s = [\<lparr>due = d, callback = CallOnComplete\<rparr>]"
    by (auto simp: finishing_phase_def)
  from fire_single [OF this assms(2)] show ?thesis by auto
qed

lemma length_markCompleted: "length (markCompleted i ls) = length ls"
  by (simp add: markCompleted_def)

lemma step_append:
  assumes "single_run b s" "step s s'" "length (logs s) < length (logs s')"
  shows "\<exists>i ts. settling_phase b i s \<and> logs s' = logs s @ [entry i Running ts]"
  using assms(1)
proof (cases rule: single_run_cases)
  case (running i)
  from step_running_eq [OF running assms(2)] assms(3) show ?thesis
    by (auto simp: completeStep_def setTimeout_def length_markCompleted)
next
  case (settling i)
  from step_settling_eq [OF settling assms(2)] obtain t where
    s': "s' = processStep (length (stepIndex b)) (s\<lparr>timers := [], now := t\<rparr>)" by auto
  from settling have si: "stepIndex s = stepIndex b @ [i]" by (simp add: settling_phase_def)
  show ?thesis
  proof (cases "i < length deploymentSteps")
    case True
    with si have "logs s' = logs s @ [entry i Running t]"
      by (simp add: s' processStep_def setTimeout_def Let_def entry_def)
    with settling show ?thesis by blast
  next
    case False
    with si assms(3) show ?thesis
      by (simp add: s' processStep_def setTimeout_def Let_def)
  qed
next
  case finishing
  from step_finishing_eq [OF finishing assms(2)] assms(3) show ?thesis
    by (auto simp: callOnComplete_def)
next
  case finished
  with assms(2) show ?thesis using step_finished by blast
qed

lemma step_call:
  assumes "single_run b s" "step s s'" "onComplete_calls s' \<noteq> onComplete_calls s"
  shows "finishing_phase b s"
  using assms(1)
proof (cases rule: single_run_cases)
  case (running i)
  from step_running_eq [OF running assms(2)] assms(3) show ?thesis
    by (auto simp: completeStep_def setTimeout_def)
next
  case (settling i)
  from step_settling_eq [OF settling assms(2)] assms(3) show ?thesis
    by (auto simp: processStep_def setTimeout_def Let_def split: if_splits)
next
  case finishing
  then show ?thesis .
next
  case finished
  with assms(2) show ?thesis using step_finished by blast
qed

lemma single_run_log:
  assumes "single_run b s"
  shows "\<exists>n. n \<le> length deploymentSteps \<and>
    ((completed_upto n (logs s)) \<or>
     (n < length deploymentSteps \<and> (\<exists>ls ts. logs s = ls @ [entry n Running ts] \<and> completed_upto n ls)))"
  using assms
proof (cases rule: single_run_cases)
  case (running i)
  then obtain ls ts where "i < length deploymentSteps"
    "logs s = ls @ [entry i Running ts]" "completed_upto i ls"
    by (auto simp: running_phase_def)
  then show ?thesis by (meson less_imp_le_nat)
next
  case (settling i)
  then show ?thesis by (auto simp: settling_phase_def)
next
  case finishing
  then show ?thesis by (auto simp: finishing_phase_def)
next
  case finished
  then show ?thesis by (auto simp: finished_def)
qed


lemma running_log_nth:
  assumes "completed_upto n ls" "k \<le> n"
  shows "entry_id ((ls @ [entry n Running ts]) ! k) = step_id k"
    and "status ((ls @ [entry n Running ts]) ! k) = (if k = n then Running else Completed)"
  using assms completed_upto_nth [OF assms(1), of k] completed_upto_length [OF assms(1)]
  by (auto simp: nth_append entry_def)



lemma step_settling_state:
  assumes "Suc i < length deploymentSteps"
  shows "step (settling_state t0 i) (running_state t0 (Suc i))"
proof -
  have a: "isActive props0" by (simp add: props0_def)
  from assms have "i < length deploymentSteps" by simp
  from reachable_single_run [OF a timers_mount reachable_settling_state [OF a this]]
  have sr: "single_run (mount t0) (settling_state t0 i)" .
  have "step (settling_state t0 i) (fire_next (settling_state t0 i))"
    by (rule fire_next_step [OF _ sr]) (simp add: timers_states)
  then show ?thesis by (simp add: fire_next_settling_state [OF assms])
qed

lemma step_finishing_state: "step (finishing_state t0) (final_state t0)"
proof -
  have a: "isActive props0" by (simp add: props0_def)
  from reachable_single_run [OF a timers_mount reachable_finishing_state [OF a]]
  have sr: "single_run (mount t0) (finishing_state t0)" .
  have "step (finishing_state t0) (fire_next (finishing_state t0))"
    by (rule fire_next_step [OF _ sr]) (simp add: timers_states)
  then show ?thesis by (simp add: fire_next_finishing_state)
qed

lemma logs_running_state_1:
  "logs (running_state t0 1) = [entry 0 Completed t0, entry 1 Running (t0 + 2500)]"
  using nth_duration(1) by (simp add: running_state_def completed_log_def add.commute)

lemma logs_settling_state_0: "logs (settling_state t0 0) = [entry 0 Completed t0]"
  by (simp add: settling_state_def completed_log_def)

lemma logs_final_state:
  "length (logs (final_state t0)) = length deploymentSteps"
  "list_all (\<lambda>e. status e = Completed) (logs (final_state t0))"
  "logs (finishing_state t0) = logs (final_state t0)"
  using completed_upto_all [OF completed_log_upto [of "length deploymentSteps" t0]]
  by (simp_all add: final_state_def finishing_state_def completed_log_def list_all_iff)

lemma single_run_ids:
  assumes "single_run b s" "i < length (logs s)"
  shows "entry_id (logs s ! i) = step_id i"
    and "0 < i \<Longrightarrow> status (logs s ! (i - 1)) = Completed"
proof -
  from single_run_log [OF assms(1)] obtain n where
    d: "completed_upto n (logs s) \<or>
     (n < length deploymentSteps \<and>
      (\<exists>ls ts. logs s = ls @ [entry n Running ts] \<and> completed_upto n ls))"
    by blast
  then have "entry_id (logs s ! i) = step_id i \<and>
      (0 < i \<longrightarrow> status (logs s ! (i - 1)) = Completed)"
  proof
    assume c: "completed_upto n (logs s)"
    with assms(2) have i: "i < n" by (simp add: completed_upto_length)
    then have "0 < i \<longrightarrow> i - 1 < n" by arith
    with completed_upto_nth(1) [OF c i] completed_upto_nth(5) [OF c, of "i - 1"]
    show ?thesis by blast
  next
    assume "n < length deploymentSteps \<and>
      (\<exists>ls ts. logs s = ls @ [entry n Running ts] \<and> completed_upto n ls)"
    then obtain ls ts where l: "logs s = ls @ [entry n Running ts]"
      and c: "completed_upto n ls" by blast
    from assms(2) have i: "i \<le> n"
      using completed_upto_length [OF c] by (simp add: l)
    have 1: "entry_id (logs s ! i) = step_id i"
      using running_log_nth(1) [OF c i, of ts] by (simp add: l)
    have 2: "0 < i \<longrightarrow> status (logs s ! (i - 1)) = Completed"
    proof
      assume "0 < i"
      with i have "i - 1 \<le> n" "i - 1 \<noteq> n" by simp_all
      with running_log_nth(2) [OF c, of "i - 1" ts]
      show "status (logs s ! (i - 1)) = Completed" by (simp add: l)
    qed
    from 1 2 show ?thesis by (rule conjI)
  qed
  then show "entry_id (logs s ! i) = step_id i"
    and "0 < i \<Longrightarrow> status (logs s ! (i - 1)) = Completed" by simp_all
qed

lemma step_append_ordered:
  assumes "single_run b s" "step s s'" "length (logs s) < length (logs s')"
  shows "(\<forall>e\<in>set (logs s). status e = Completed) \<and>
    (\<exists>e. logs s' = logs s @ [e] \<and> entry_id e = step_id (length (logs s)))"
proof -
  from step_append [OF assms] obtain i ts where
    p: "settling_phase b i s" and l: "logs s' = logs s @ [entry i Running ts]" by blast
  from p have c: "completed_upto i (logs s)" by (simp add: settling_phase_def)
  have "entry_id (entry i Running ts) = step_id (length (logs s))"
    by (simp add: entry_def completed_upto_length [OF c])
  with l have "\<exists>e. logs s' = logs s @ [e] \<and> entry_id e = step_id (length (logs s))"
    by blast
  moreover have "\<forall>e\<in>set (logs s). status e = Completed"
    using completed_upto_all [OF c] by blast
  ultimately show ?thesis by (rule conjI [rotated])
qed

lemma step_call_ordered:
  assumes "single_run b s" "step s s'" "onComplete_calls s' \<noteq> onComplete_calls s"
  shows "length (logs s) = length deploymentSteps \<and>
    (\<forall>e\<in>set (logs s). status e = Completed)"
proof -
  from step_call [OF assms] have "completed_upto (length deploymentSteps) (logs s)"
    by (simp add: finishing_phase_def)
  from completed_upto_length [OF this] completed_upto_all [OF this] show ?thesis by blast
qed



lemma effect_prompt:
  "effect \<lparr>isActive = a, prompt = p\<rparr> s = effect \<lparr>isActive = a, prompt = q\<rparr> s"
  by (simp add: effect_def)

lemma reachable_prompt:
  assumes "reachable \<lparr>isActive = a, prompt = p\<rparr> b s"
  shows "reachable \<lparr>isActive = a, prompt = q\<rparr> b s"
  using assms
proof (induction rule: reachable.induct)
  case activated
  show ?case
    using reachable.activated [of "\<lparr>isActive = a, prompt = q\<rparr>" b]
    by (simp add: effect_prompt [of a p _ q])
next
  case (fired s s')
  then show ?case by (auto intro: reachable.fired)
qed

lemma effect_active:
  "effect \<lparr>isActive = True, prompt = p\<rparr> s =
     s\<lparr>logs := [entry 0 Running (now s)], currentStep := 0, stepIndex := stepIndex s @ [0],
       timers := timers s @
         [\<lparr>due = now s + 2000,
           callback = CompleteStep (length (stepIndex s)) (step_id 0)\<rparr>]\<rparr>"
  using nth_duration(1)
  by (simp add: effect_def processStep_def setTimeout_def Let_def length_deploymentSteps
      entry_def)

lemma restarted_eq:
  "restarted =
     \<lparr>logs = [entry 0 Running 2000], currentStep = 0, stepIndex = [1, 0],
      timers = [\<lparr>due = 2500, callback = ProcessStep 0\<rparr>,
                \<lparr>due = 4000, callback = CompleteStep 1 (step_id 0)\<rparr>],
      now = 2000, onComplete_calls = []\<rparr>"
  using nth_duration(1)
  by (simp add: restarted_def props0_def effect_active settling_state_def completed_log_def)

lemma fire_next_restarted:
  "fire_next restarted =
     \<lparr>logs = [entry 0 Running 2000, entry 1 Running 2500], currentStep = 1,
      stepIndex = [1, 0],
      timers = [\<lparr>due = 4000, callback = CompleteStep 1 (step_id 0)\<rparr>,
                \<lparr>due = 5500, callback = CompleteStep 0 (step_id 1)\<rparr>],
      now = 2500, onComplete_calls = []\<rparr>"
  using nth_duration(2)
  by (simp add: restarted_eq fire_next_def earliest_def fire_def processStep_def
      setTimeout_def Let_def length_deploymentSteps entry_def)

lemma step_restarted: "step restarted (fire_next restarted)"
proof -
  have "step restarted (fire 0 2500 restarted)"
    by (rule step.fireI) (simp_all add: restarted_eq)
  moreover have "fire_next restarted = fire 0 2500 restarted"
    by (simp add: restarted_eq fire_next_def earliest_def)
  ultimately show ?thesis by simp
qed

lemma trim_Nil_iff: "trim s = [] \<longleftrightarrow> (\<forall>c\<in>set s. isWhiteSpace c)"
proof
  assume "trim s = []"
  then have a: "\<forall>c\<in>set (dropWhile isWhiteSpace s). isWhiteSpace c"
    by (simp add: trim_def dropWhile_eq_Nil_conv)
  have "dropWhile isWhiteSpace s = []"
  proof (rule ccontr)
    assume n: "dropWhile isWhiteSpace s \<noteq> []"
    then have "\<not> isWhiteSpace (hd (dropWhile isWhiteSpace s))" by (rule hd_dropWhile)
    moreover from n have "hd (dropWhile isWhiteSpace s) \<in> set (dropWhile isWhiteSpace s)"
      by (rule hd_in_set)
    ultimately show False using a by blast
  qed
  then show "\<forall>c\<in>set s. isWhiteSpace c" by (simp add: dropWhile_eq_Nil_conv)
next
  assume "\<forall>c\<in>set s. isWhiteSpace c"
  then have "dropWhile isWhiteSpace s = []" by (simp only: dropWhile_eq_Nil_conv)
  then show "trim s = []" by (simp only: trim_def rev.simps dropWhile.simps)
qed


section \<open>Runs that are activated again in flight\<close>

lemma processStep_entry:
  "processStep r s =
     (if length deploymentSteps \<le> stepIndex s ! r then setTimeout CallOnComplete 1000 s
      else setTimeout (CompleteStep r (step_id (stepIndex s ! r)))
             (duration (deploymentSteps ! (stepIndex s ! r)))
             (s\<lparr>logs := logs s @ [entry (stepIndex s ! r) Running (now s)],
                currentStep := stepIndex s ! r\<rparr>))"
  by (simp add: processStep_def entry_def Let_def)

lemma entry_id_entry: "entry_id (entry k st ts) = step_id k"
  by (simp add: entry_def)

lemma entry_completed: "(entry k st ts)\<lparr>status := Completed\<rparr> = entry k Completed ts"
  by (simp add: entry_def)

lemma status_entry: "status (entry k st ts) = st"
  by (simp add: entry_def)

lemmas fire_next_concrete =
  fire_next_def earliest_def fire_def processStep_entry completeStep_def markCompleted_def
  setTimeout_def callOnComplete_def length_deploymentSteps entry_id_entry entry_completed
  step_id_inj

lemma funpow_restarted:
  shows "(fire_next ^^ 30) restarted = restarted_called"
    and "(fire_next ^^ 31) restarted = restarted_completed"
    and "(fire_next ^^ 33) restarted = restarted_final"
proof -
  let ?s0 =
    "\<lparr>logs = [entry 0 Running 2000],
      currentStep = 0, stepIndex = [1, 0],
      timers = [\<lparr>due = 2500, callback = ProcessStep 0\<rparr>,
                \<lparr>due = 4000, callback = CompleteStep 1 (step_id 0)\<rparr>],
      now = 2000, onComplete_calls = []\<rparr>"
  let ?s1 =
    "\<lparr>logs = [entry 0 Running 2000, entry 1 Running 2500],
      currentStep = 1, stepIndex = [1, 0],
      timers = [\<lparr>due = 4000, callback = CompleteStep 1 (step_id 0)\<rparr>,
                \<lparr>due = 5500, callback = CompleteStep 0 (step_id 1)\<rparr>],
      now = 2500, onComplete_calls = []\<rparr>"
  let ?s2 =
    "\<lparr>logs = [entry 0 Completed 2000, entry 1 Running 2500],
      currentStep = 1, stepIndex = [1, 1],
      timers = [\<lparr>due = 5500, callback = CompleteStep 0 (step_id 1)\<rparr>,
                \<lparr>due = 4500, callback = ProcessStep 1\<rparr>],
      now = 4000, onComplete_calls = []\<rparr>"
  let ?s3 =
    "\<lparr>logs = [entry 0 Completed 2000, entry 1 Running 2500, entry 1 Running 4500],
      currentStep = 1, stepIndex = [1, 1],
      timers = [\<lparr>due = 5500, callback = CompleteStep 0 (step_id 1)\<rparr>,
                \<lparr>due = 7500, callback = CompleteStep 1 (step_id 1)\<rparr>],
      now = 4500, onComplete_calls = []\<rparr>"
  let ?s4 =
    "\<lparr>logs = [entry 0 Completed 2000, entry 1 Completed 2500, entry 1 Completed 4500],
      currentStep = 1, stepIndex = [2, 1],
      timers = [\<lparr>due = 7500, callback = CompleteStep 1 (step_id 1)\<rparr>,
                \<lparr>due = 6000, callback = ProcessStep 0\<rparr>],
      now = 5500, onComplete_calls = []\<rparr>"
  let ?s5 =
    "\<lparr>logs = [entry 0 Completed 2000, entry 1 Completed 2500, entry 1 Completed 4500,
              entry 2 Running 6000],
      currentStep = 2, stepIndex = [2, 1],
      timers = [\<lparr>due = 7500, callback = CompleteStep 1 (step_id 1)\<rparr>,
                \<lparr>due = 8000, callback = CompleteStep 0 (step_id 2)\<rparr>],
      now = 6000, onComplete_calls = []\<rparr>"
  let ?s6 =
    "\<lparr>logs = [entry 0 Completed 2000, entry 1 Completed 2500, entry 1 Completed 4500,
              entry 2 Running 6000],
      currentStep = 2, stepIndex = [2, 2],
      timers = [\<lparr>due = 8000, callback = CompleteStep 0 (step_id 2)\<rparr>,
                \<lparr>due = 8000, callback = ProcessStep 1\<rparr>],
      now = 7500, onComplete_calls = []\<rparr>"
  let ?s7 =
    "\<lparr>logs = [entry 0 Completed 2000, entry 1 Completed 2500, entry 1 Completed 4500,
              entry 2 Completed 6000],
      currentStep = 2, stepIndex = [3, 2],
      timers = [\<lparr>due = 8000, callback = ProcessStep 1\<rparr>,
                \<lparr>due = 8500, callback = ProcessStep 0\<rparr>],
      now = 8000, onComplete_calls = []\<rparr>"
  let ?s8 =
    "\<lparr>logs = [entry 0 Completed 2000, entry 1 Completed 2500, entry 1 Completed 4500,
              entry 2 Completed 6000, entry 2 Running 8000],
      currentStep = 2, stepIndex = [3, 2],
      timers = [\<lparr>due = 8500, callback = ProcessStep 0\<rparr>,
                \<lparr>due = 10000, callback = CompleteStep 1 (step_id 2)\<rparr>],
      now = 8000, onComplete_calls = []\<rparr>"
  let ?s9 =
    "\<lparr>logs = [entry 0 Completed 2000, entry 1 Completed 2500, entry 1 Completed 4500,
              entry 2 Completed 6000, entry 2 Running 8000, entry 3 Running 8500],
      currentStep = 3, stepIndex = [3, 2],
      timers = [\<lparr>due = 10000, callback = CompleteStep 1 (step_id 2)\<rparr>,
                \<lparr>due = 12500, callback = CompleteStep 0 (step_id 3)\<rparr>],
      now = 8500, onComplete_calls = []\<rparr>"
  let ?s10 =
    "\<lparr>logs = [entry 0 Completed 2000, entry 1 Completed 2500, entry 1 Completed 4500,
              entry 2 Completed 6000, entry 2 Completed 8000, entry 3 Running 8500],
      currentStep = 3, stepIndex = [3, 3],
      timers = [\<lparr>due = 12500, callback = CompleteStep 0 (step_id 3)\<rparr>,
                \<lparr>due = 10500, callback = ProcessStep 1\<rparr>],
      now = 10000, onComplete_calls = []\<rparr>"
  let ?s11 =
    "\<lparr>logs = [entry 0 Completed 2000, entry 1 Completed 2500, entry 1 Completed 4500,
              entry 2 Completed 6000, entry 2 Completed 8000, entry 3 Running 8500,
              entry 3 Running 10500],
      currentStep = 3, stepIndex = [3, 3],
      timers = [\<lparr>due = 12500, callback = CompleteStep 0 (step_id 3)\<rparr>,
                \<lparr>due = 14500, callback = CompleteStep 1 (step_id 3)\<rparr>],
      now = 10500, onComplete_calls = []\<rparr>"
  let ?s12 =
    "\<lparr>logs = [entry 0 Completed 2000, entry 1 Completed 2500, entry 1 Completed 4500,
              entry 2 Completed 6000, entry 2 Completed 8000, entry 3 Completed 8500,
              entry 3 Completed 10500],
      currentStep = 3, stepIndex = [4, 3],
      timers = [\<lparr>due = 14500, callback = CompleteStep 1 (step_id 3)\<rparr>,
                \<lparr>due = 13000, callback = ProcessStep 0\<rparr>],
      now = 12500, onComplete_calls = []\<rparr>"
  let ?s13 =
    "\<lparr>logs = [entry 0 Completed 2000, entry 1 Completed 2500, entry 1 Completed 4500,
              entry 2 Completed 6000, entry 2 Completed 8000, entry 3 Completed 8500,
              entry 3 Completed 10500, entry 4 Running 13000],
      currentStep = 4, stepIndex = [4, 3],
      timers = [\<lparr>due = 14500, callback = CompleteStep 1 (step_id 3)\<rparr>,
                \<lparr>due = 16000, callback = CompleteStep 0 (step_id 4)\<rparr>],
      now = 13000, onComplete_calls = []\<rparr>"
  let ?s14 =
    "\<lparr>logs = [entry 0 Completed 2000, entry 1 Completed 2500, entry 1 Completed 4500,
              entry 2 Completed 6000, entry 2 Completed 8000, entry 3 Completed 8500,
              entry 3 Completed 10500, entry 4 Running 13000],
      currentStep = 4, stepIndex = [4, 4],
      timers = [\<lparr>due = 16000, callback = CompleteStep 0 (step_id 4)\<rparr>,
                \<lparr>due = 15000, callback = ProcessStep 1\<rparr>],
      now = 14500, onComplete_calls = []\<rparr>"
  let ?s15 =
    "\<lparr>logs = [entry 0 Completed 2000, entry 1 Completed 2500, entry 1 Completed 4500,
              entry 2 Completed 6000, entry 2 Completed 8000, entry 3 Completed 8500,
              entry 3 Completed 10500, entry 4 Running 13000, entry 4 Running 15000],
      currentStep = 4, stepIndex = [4, 4],
      timers = [\<lparr>due = 16000, callback = CompleteStep 0 (step_id 4)\<rparr>,
                \<lparr>due = 18000, callback = CompleteStep 1 (step_id 4)\<rparr>],
      now = 15000, onComplete_calls = []\<rparr>"
  let ?s16 =
    "\<lparr>logs = [entry 0 Completed 2000, entry 1 Completed 2500, entry 1 Completed 4500,
              entry 2 Completed 6000, entry 2 Completed 8000, entry 3 Completed 8500,
              entry 3 Completed 10500, entry 4 Completed 13000, entry 4 Completed 15000],
      currentStep = 4, stepIndex = [5, 4],
      timers = [\<lparr>due = 18000, callback = CompleteStep 1 (step_id 4)\<rparr>,
                \<lparr>due = 16500, callback = ProcessStep 0\<rparr>],
      now = 16000, onComplete_calls = []\<rparr>"
  let ?s17 =
    "\<lparr>logs = [entry 0 Completed 2000, entry 1 Completed 2500, entry 1 Completed 4500,
              entry 2 Completed 6000, entry 2 Completed 8000, entry 3 Completed 8500,
              entry 3 Completed 10500, entry 4 Completed 13000,
              entry 4 Completed 15000, entry 5 Running 16500],
      currentStep = 5, stepIndex = [5, 4],
      timers = [\<lparr>due = 18000, callback = CompleteStep 1 (step_id 4)\<rparr>,
                \<lparr>due = 19000, callback = CompleteStep 0 (step_id 5)\<rparr>],
      now = 16500, onComplete_calls = []\<rparr>"
  let ?s18 =
    "\<lparr>logs = [entry 0 Completed 2000, entry 1 Completed 2500, entry 1 Completed 4500,
              entry 2 Completed 6000, entry 2 Completed 8000, entry 3 Completed 8500,
              entry 3 Completed 10500, entry 4 Completed 13000,
              entry 4 Completed 15000, entry 5 Running 16500],
      currentStep = 5, stepIndex = [5, 5],
      timers = [\<lparr>due = 19000, callback = CompleteStep 0 (step_id 5)\<rparr>,
                \<lparr>due = 18500, callback = ProcessStep 1\<rparr>],
      now = 18000, onComplete_calls = []\<rparr>"
  let ?s19 =
    "\<lparr>logs = [entry 0 Completed 2000, entry 1 Completed 2500, entry 1 Completed 4500,
              entry 2 Completed 6000, entry 2 Completed 8000, entry 3 Completed 8500,
              entry 3 Completed 10500, entry 4 Completed 13000,
              entry 4 Completed 15000, entry 5 Running 16500, entry 5 Running 18500],
      currentStep = 5, stepIndex = [5, 5],
      timers = [\<lparr>due = 19000, callback = CompleteStep 0 (step_id 5)\<rparr>,
                \<lparr>due = 21000, callback = CompleteStep 1 (step_id 5)\<rparr>],
      now = 18500, onComplete_calls = []\<rparr>"
  let ?s20 =
    "\<lparr>logs = [entry 0 Completed 2000, entry 1 Completed 2500, entry 1 Completed 4500,
              entry 2 Completed 6000, entry 2 Completed 8000, entry 3 Completed 8500,
              entry 3 Completed 10500, entry 4 Completed 13000,
              entry 4 Completed 15000, entry 5 Completed 16500, entry 5 Completed 18500],
      currentStep = 5, stepIndex = [6, 5],
      timers = [\<lparr>due = 21000, callback = CompleteStep 1 (step_id 5)\<rparr>,
                \<lparr>due = 19500, callback = ProcessStep 0\<rparr>],
      now = 19000, onComplete_calls = []\<rparr>"
  let ?s21 =
    "\<lparr>logs = [entry 0 Completed 2000, entry 1 Completed 2500, entry 1 Completed 4500,
              entry 2 Completed 6000, entry 2 Completed 8000, entry 3 Completed 8500,
              entry 3 Completed 10500, entry 4 Completed 13000,
              entry 4 Completed 15000, entry 5 Completed 16500,
              entry 5 Completed 18500, entry 6 Running 19500],
      currentStep = 6, stepIndex = [6, 5],
      timers = [\<lparr>due = 21000, callback = CompleteStep 1 (step_id 5)\<rparr>,
                \<lparr>due = 22500, callback = CompleteStep 0 (step_id 6)\<rparr>],
      now = 19500, onComplete_calls = []\<rparr>"
  let ?s22 =
    "\<lparr>logs = [entry 0 Completed 2000, entry 1 Completed 2500, entry 1 Completed 4500,
              entry 2 Completed 6000, entry 2 Completed 8000, entry 3 Completed 8500,
              entry 3 Completed 10500, entry 4 Completed 13000,
              entry 4 Completed 15000, entry 5 Completed 16500,
              entry 5 Completed 18500, entry 6 Running 19500],
      currentStep = 6, stepIndex = [6, 6],
      timers = [\<lparr>due = 22500, callback = CompleteStep 0 (step_id 6)\<rparr>,
                \<lparr>due = 21500, callback = ProcessStep 1\<rparr>],
      now = 21000, onComplete_calls = []\<rparr>"
  let ?s23 =
    "\<lparr>logs = [entry 0 Completed 2000, entry 1 Completed 2500, entry 1 Completed 4500,
              entry 2 Completed 6000, entry 2 Completed 8000, entry 3 Completed 8500,
              entry 3 Completed 10500, entry 4 Completed 13000,
              entry 4 Completed 15000, entry 5 Completed 16500,
              entry 5 Completed 18500, entry 6 Running 19500, entry 6 Running 21500],
      currentStep = 6, stepIndex = [6, 6],
      timers = [\<lparr>due = 22500, callback = CompleteStep 0 (step_id 6)\<rparr>,
                \<lparr>due = 24500, callback = CompleteStep 1 (step_id 6)\<rparr>],
      now = 21500, onComplete_calls = []\<rparr>"
  let ?s24 =
    "\<lparr>logs = [entry 0 Completed 2000, entry 1 Completed 2500, entry 1 Completed 4500,
              entry 2 Completed 6000, entry 2 Completed 8000, entry 3 Completed 8500,
              entry 3 Completed 10500, entry 4 Completed 13000,
              entry 4 Completed 15000, entry 5 Completed 16500,
              entry 5 Completed 18500, entry 6 Completed 19500, entry 6 Completed 21500],
      currentStep = 6, stepIndex = [7, 6],
      timers = [\<lparr>due = 24500, callback = CompleteStep 1 (step_id 6)\<rparr>,
                \<lparr>due = 23000, callback = ProcessStep 0\<rparr>],
      now = 22500, onComplete_calls = []\<rparr>"
  let ?s25 =
    "\<lparr>logs = [entry 0 Completed 2000, entry 1 Completed 2500, entry 1 Completed 4500,
              entry 2 Completed 6000, entry 2 Completed 8000, entry 3 Completed 8500,
              entry 3 Completed 10500, entry 4 Completed 13000,
              entry 4 Completed 15000, entry 5 Completed 16500,
              entry 5 Completed 18500, entry 6 Completed 19500,
              entry 6 Completed 21500, entry 7 Running 23000],
      currentStep = 7, stepIndex = [7, 6],
      timers = [\<lparr>due = 24500, callback = CompleteStep 1 (step_id 6)\<rparr>,
                \<lparr>due = 24000, callback = CompleteStep 0 (step_id 7)\<rparr>],
      now = 23000, onComplete_calls = []\<rparr>"
  let ?s26 =
    "\<lparr>logs = [entry 0 Completed 2000, entry 1 Completed 2500, entry 1 Completed 4500,
              entry 2 Completed 6000, entry 2 Completed 8000, entry 3 Completed 8500,
              entry 3 Completed 10500, entry 4 Completed 13000,
              entry 4 Completed 15000, entry 5 Completed 16500,
              entry 5 Completed 18500, entry 6 Completed 19500,
              entry 6 Completed 21500, entry 7 Completed 23000],
      currentStep = 7, stepIndex = [8, 6],
      timers = [\<lparr>due = 24500, callback = CompleteStep 1 (step_id 6)\<rparr>,
                \<lparr>due = 24500, callback = ProcessStep 0\<rparr>],
      now = 24000, onComplete_calls = []\<rparr>"
  let ?s27 =
    "\<lparr>logs = [entry 0 Completed 2000, entry 1 Completed 2500, entry 1 Completed 4500,
              entry 2 Completed 6000, entry 2 Completed 8000, entry 3 Completed 8500,
              entry 3 Completed 10500, entry 4 Completed 13000,
              entry 4 Completed 15000, entry 5 Completed 16500,
              entry 5 Completed 18500, entry 6 Completed 19500,
              entry 6 Completed 21500, entry 7 Completed 23000],
      currentStep = 7, stepIndex = [8, 7],
      timers = [\<lparr>due = 24500, callback = ProcessStep 0\<rparr>,
                \<lparr>due = 25000, callback = ProcessStep 1\<rparr>],
      now = 24500, onComplete_calls = []\<rparr>"
  let ?s28 =
    "\<lparr>logs = [entry 0 Completed 2000, entry 1 Completed 2500, entry 1 Completed 4500,
              entry 2 Completed 6000, entry 2 Completed 8000, entry 3 Completed 8500,
              entry 3 Completed 10500, entry 4 Completed 13000,
              entry 4 Completed 15000, entry 5 Completed 16500,
              entry 5 Completed 18500, entry 6 Completed 19500,
              entry 6 Completed 21500, entry 7 Completed 23000],
      currentStep = 7, stepIndex = [8, 7],
      timers = [\<lparr>due = 25000, callback = ProcessStep 1\<rparr>,
                \<lparr>due = 25500, callback = CallOnComplete\<rparr>],
      now = 24500, onComplete_calls = []\<rparr>"
  let ?s29 =
    "\<lparr>logs = [entry 0 Completed 2000, entry 1 Completed 2500, entry 1 Completed 4500,
              entry 2 Completed 6000, entry 2 Completed 8000, entry 3 Completed 8500,
              entry 3 Completed 10500, entry 4 Completed 13000,
              entry 4 Completed 15000, entry 5 Completed 16500,
              entry 5 Completed 18500, entry 6 Completed 19500,
              entry 6 Completed 21500, entry 7 Completed 23000, entry 7 Running 25000],
      currentStep = 7, stepIndex = [8, 7],
      timers = [\<lparr>due = 25500, callback = CallOnComplete\<rparr>,
                \<lparr>due = 26000, callback = CompleteStep 1 (step_id 7)\<rparr>],
      now = 25000, onComplete_calls = []\<rparr>"
  let ?s30 =
    "\<lparr>logs = [entry 0 Completed 2000, entry 1 Completed 2500, entry 1 Completed 4500,
              entry 2 Completed 6000, entry 2 Completed 8000, entry 3 Completed 8500,
              entry 3 Completed 10500, entry 4 Completed 13000,
              entry 4 Completed 15000, entry 5 Completed 16500,
              entry 5 Completed 18500, entry 6 Completed 19500,
              entry 6 Completed 21500, entry 7 Completed 23000, entry 7 Running 25000],
      currentStep = 7, stepIndex = [8, 7],
      timers = [\<lparr>due = 26000, callback = CompleteStep 1 (step_id 7)\<rparr>],
      now = 25500, onComplete_calls = [resultPayload]\<rparr>"
  let ?s31 =
    "\<lparr>logs = [entry 0 Completed 2000, entry 1 Completed 2500, entry 1 Completed 4500,
              entry 2 Completed 6000, entry 2 Completed 8000, entry 3 Completed 8500,
              entry 3 Completed 10500, entry 4 Completed 13000,
              entry 4 Completed 15000, entry 5 Completed 16500,
              entry 5 Completed 18500, entry 6 Completed 19500,
              entry 6 Completed 21500, entry 7 Completed 23000, entry 7 Completed 25000],
      currentStep = 7, stepIndex = [8, 8],
      timers = [\<lparr>due = 26500, callback = ProcessStep 1\<rparr>],
      now = 26000, onComplete_calls = [resultPayload]\<rparr>"
  let ?s32 =
    "\<lparr>logs = [entry 0 Completed 2000, entry 1 Completed 2500, entry 1 Completed 4500,
              entry 2 Completed 6000, entry 2 Completed 8000, entry 3 Completed 8500,
              entry 3 Completed 10500, entry 4 Completed 13000,
              entry 4 Completed 15000, entry 5 Completed 16500,
              entry 5 Completed 18500, entry 6 Completed 19500,
              entry 6 Completed 21500, entry 7 Completed 23000, entry 7 Completed 25000],
      currentStep = 7, stepIndex = [8, 8],
      timers = [\<lparr>due = 27500, callback = CallOnComplete\<rparr>],
      now = 26500, onComplete_calls = [resultPayload]\<rparr>"
  let ?s33 =
    "\<lparr>logs = [entry 0 Completed 2000, entry 1 Completed 2500, entry 1 Completed 4500,
              entry 2 Completed 6000, entry 2 Completed 8000, entry 3 Completed 8500,
              entry 3 Completed 10500, entry 4 Completed 13000,
              entry 4 Completed 15000, entry 5 Completed 16500,
              entry 5 Completed 18500, entry 6 Completed 19500,
              entry 6 Completed 21500, entry 7 Completed 23000, entry 7 Completed 25000],
      currentStep = 7, stepIndex = [8, 8],
      timers = [],
      now = 27500, onComplete_calls = [resultPayload, resultPayload]\<rparr>"
  have e: "restarted = ?s0" by (simp add: restarted_eq)
  have t0: "fire_next ?s0 = ?s1"
    using nth_duration by (simp add: fire_next_concrete)
  have t1: "fire_next ?s1 = ?s2"
    using nth_duration by (simp add: fire_next_concrete)
  have t2: "fire_next ?s2 = ?s3"
    using nth_duration by (simp add: fire_next_concrete)
  have t3: "fire_next ?s3 = ?s4"
    using nth_duration by (simp add: fire_next_concrete)
  have t4: "fire_next ?s4 = ?s5"
    using nth_duration by (simp add: fire_next_concrete)
  have t5: "fire_next ?s5 = ?s6"
    using nth_duration by (simp add: fire_next_concrete)
  have t6: "fire_next ?s6 = ?s7"
    using nth_duration by (simp add: fire_next_concrete)
  have t7: "fire_next ?s7 = ?s8"
    using nth_duration by (simp add: fire_next_concrete)
  have t8: "fire_next ?s8 = ?s9"
    using nth_duration by (simp add: fire_next_concrete)
  have t9: "fire_next ?s9 = ?s10"
    using nth_duration by (simp add: fire_next_concrete)
  have t10: "fire_next ?s10 = ?s11"
    using nth_duration by (simp add: fire_next_concrete)
  have t11: "fire_next ?s11 = ?s12"
    using nth_duration by (simp add: fire_next_concrete)
  have t12: "fire_next ?s12 = ?s13"
    using nth_duration by (simp add: fire_next_concrete)
  have t13: "fire_next ?s13 = ?s14"
    using nth_duration by (simp add: fire_next_concrete)
  have t14: "fire_next ?s14 = ?s15"
    using nth_duration by (simp add: fire_next_concrete)
  have t15: "fire_next ?s15 = ?s16"
    using nth_duration by (simp add: fire_next_concrete)
  have t16: "fire_next ?s16 = ?s17"
    using nth_duration by (simp add: fire_next_concrete)
  have t17: "fire_next ?s17 = ?s18"
    using nth_duration by (simp add: fire_next_concrete)
  have t18: "fire_next ?s18 = ?s19"
    using nth_duration by (simp add: fire_next_concrete)
  have t19: "fire_next ?s19 = ?s20"
    using nth_duration by (simp add: fire_next_concrete)
  have t20: "fire_next ?s20 = ?s21"
    using nth_duration by (simp add: fire_next_concrete)
  have t21: "fire_next ?s21 = ?s22"
    using nth_duration by (simp add: fire_next_concrete)
  have t22: "fire_next ?s22 = ?s23"
    using nth_duration by (simp add: fire_next_concrete)
  have t23: "fire_next ?s23 = ?s24"
    using nth_duration by (simp add: fire_next_concrete)
  have t24: "fire_next ?s24 = ?s25"
    using nth_duration by (simp add: fire_next_concrete)
  have t25: "fire_next ?s25 = ?s26"
    using nth_duration by (simp add: fire_next_concrete)
  have t26: "fire_next ?s26 = ?s27"
    using nth_duration by (simp add: fire_next_concrete)
  have t27: "fire_next ?s27 = ?s28"
    using nth_duration by (simp add: fire_next_concrete)
  have t28: "fire_next ?s28 = ?s29"
    using nth_duration by (simp add: fire_next_concrete)
  have t29: "fire_next ?s29 = ?s30"
    using nth_duration by (simp add: fire_next_concrete)
  have t30: "fire_next ?s30 = ?s31"
    using nth_duration by (simp add: fire_next_concrete)
  have t31: "fire_next ?s31 = ?s32"
    using nth_duration by (simp add: fire_next_concrete)
  have t32: "fire_next ?s32 = ?s33"
    using nth_duration by (simp add: fire_next_concrete)
  have "(fire_next ^^ 30) restarted =
    fire_next (fire_next (fire_next (fire_next (fire_next (fire_next (fire_next (
      fire_next (fire_next (fire_next (fire_next (fire_next (fire_next (fire_next (
      fire_next (fire_next (fire_next (fire_next (fire_next (fire_next (fire_next (
      fire_next (fire_next (fire_next (fire_next (fire_next (fire_next (fire_next (
      fire_next (fire_next (restarted))))))))))))))))))))))))))))))"
    by (simp add: eval_nat_numeral)
  then show "(fire_next ^^ 30) restarted = restarted_called"
    by (simp only: e t0 t1 t2 t3 t4 t5 t6 t7 t8 t9 t10 t11 t12 t13 t14 t15 t16 t17 t18 t19 t20 t21 t22 t23 t24 t25 t26 t27 t28 t29 restarted_called_def)
  have "(fire_next ^^ 31) restarted =
    fire_next (fire_next (fire_next (fire_next (fire_next (fire_next (fire_next (
      fire_next (fire_next (fire_next (fire_next (fire_next (fire_next (fire_next (
      fire_next (fire_next (fire_next (fire_next (fire_next (fire_next (fire_next (
      fire_next (fire_next (fire_next (fire_next (fire_next (fire_next (fire_next (
      fire_next (fire_next (fire_next (restarted)))))))))))))))))))))))))))))))"
    by (simp add: eval_nat_numeral)
  then show "(fire_next ^^ 31) restarted = restarted_completed"
    by (simp only: e t0 t1 t2 t3 t4 t5 t6 t7 t8 t9 t10 t11 t12 t13 t14 t15 t16 t17 t18 t19 t20 t21 t22 t23 t24 t25 t26 t27 t28 t29 t30 restarted_completed_def)
  have "(fire_next ^^ 33) restarted =
    fire_next (fire_next (fire_next (fire_next (fire_next (fire_next (fire_next (
      fire_next (fire_next (fire_next (fire_next (fire_next (fire_next (fire_next (
      fire_next (fire_next (fire_next (fire_next (fire_next (fire_next (fire_next (
      fire_next (fire_next (fire_next (fire_next (fire_next (fire_next (fire_next (
      fire_next (fire_next (fire_next (fire_next (fire_next (restarted)))))))))))))))))))))))))))))))))"
    by (simp add: eval_nat_numeral)
  then show "(fire_next ^^ 33) restarted = restarted_final"
    by (simp only: e t0 t1 t2 t3 t4 t5 t6 t7 t8 t9 t10 t11 t12 t13 t14 t15 t16 t17 t18 t19 t20 t21 t22 t23 t24 t25 t26 t27 t28 t29 t30 t31 t32 restarted_final_def)
qed



section \<open>The claims\<close>

text \<open>
  C8. \<open>markCompleted\<close> changes nothing but the status of the entries whose id is the
  given one, which becomes \<open>Completed\<close>: the log keeps its length; at every position
  the id, message, details, timestamp and icon are those of the old entry; an entry
  with the given id is the old entry with status \<open>Completed\<close>; any other entry is
  the old entry. When no entry has the given id the log is returned as it is.
\<close>

theorem markCompleted_frame:
  "length (markCompleted i prev) = length prev \<and>
   (\<forall>k<length prev.
      entry_id (markCompleted i prev ! k) = entry_id (prev ! k) \<and>
      message (markCompleted i prev ! k) = message (prev ! k) \<and>
      details (markCompleted i prev ! k) = details (prev ! k) \<and>
      timestamp (markCompleted i prev ! k) = timestamp (prev ! k) \<and>
      icon (markCompleted i prev ! k) = icon (prev ! k) \<and>
      (if entry_id (prev ! k) = i
       then markCompleted i prev ! k = (prev ! k)\<lparr>status := Completed\<rparr>
       else markCompleted i prev ! k = prev ! k)) \<and>
   ((\<forall>e\<in>set prev. entry_id e \<noteq> i) \<longrightarrow> markCompleted i prev = prev)"
  by (simp add: markCompleted_def map_idI)

theorem markCompleted_frame_witness:
  "length (markCompleted (step_id 1) log2) = 2 \<and>
   markCompleted (step_id 1) log2 ! 0 = entry 0 Completed 0 \<and>
   markCompleted (step_id 1) log2 ! 1 = entry 1 Completed 2500 \<and>
   step_id 7 \<notin> entry_id ` set log2 \<and> markCompleted (step_id 7) log2 = log2"
proof -
  have l2: "length log2 = 2" by (simp add: log2_def)
  note t = markCompleted_frame [of "step_id 1" log2, unfolded l2]
  from t have len: "length (markCompleted (step_id 1) log2) = 2" by blast
  from t have k: "\<forall>k<2.
      if entry_id (log2 ! k) = step_id 1
      then markCompleted (step_id 1) log2 ! k = (log2 ! k)\<lparr>status := Completed\<rparr>
      else markCompleted (step_id 1) log2 ! k = log2 ! k"
    by blast
  have k0: "markCompleted (step_id 1) log2 ! 0 = entry 0 Completed 0"
    using k [rule_format, of 0] by (simp add: log2_def entry_def step_id_inj split: if_splits)
  have k1: "markCompleted (step_id 1) log2 ! 1 = entry 1 Completed 2500"
    using k [rule_format, of 1] by (simp add: log2_def entry_def step_id_inj split: if_splits)
  have a: "\<forall>e\<in>set log2. entry_id e \<noteq> step_id 7"
    by (simp add: log2_def entry_def step_id_inj)
  with markCompleted_frame [of "step_id 7" log2]
  have "markCompleted (step_id 7) log2 = log2" by blast
  moreover have "step_id 7 \<notin> entry_id ` set log2"
    by (simp add: log2_def entry_def step_id_inj)
  ultimately show ?thesis using len k0 k1 by blast
qed

text \<open>
  C1. As stated, for every run, the claim fails. The first run is activated at time 0
  on a freshly mounted component and completes step 0 at 2000; the component is
  activated again at that moment, while the settle timer of the first run is pending.
  Under the ideal clock the second run completes its last step with the 31st timer:
  its \<^verbatim>\<open>stepIndex\<close> is 8, and the log has 15 entries, two of them for step 1. It
  still has 15 when no timer is pending any more.
\<close>

theorem completed_run_log_counterexample:
  "reachable props0 (mount 0) (settling_state 0 0) \<and>
   restarted = effect props0 (settling_state 0 0) \<and>
   (fire_next ^^ 31) restarted = restarted_completed \<and>
   stepIndex restarted_completed = [8, 8] \<and>
   length deploymentSteps \<le> last (stepIndex restarted_completed) \<and>
   length deploymentSteps = 8 \<and>
   length (logs restarted_completed) = 15 \<and>
   map entry_id (take 3 (logs restarted_completed)) = [step_id 0, step_id 1, step_id 1] \<and>
   (fire_next ^^ 33) restarted = restarted_final \<and>
   timers restarted_final = [] \<and>
   length (logs restarted_final) = 15"
proof -
  have 1: "reachable props0 (mount 0) (settling_state 0 0)"
    by (rule reachable_settling_state) (simp_all add: props0_def length_deploymentSteps)
  have 2: "restarted = effect props0 (settling_state 0 0)" by (rule restarted_def)
  have 4: "stepIndex restarted_completed = [8, 8]" by (simp add: restarted_completed_def)
  have 5: "length deploymentSteps \<le> last (stepIndex restarted_completed)"
    by (simp add: restarted_completed_def length_deploymentSteps)
  have 7: "length (logs restarted_completed) = 15" by (simp add: restarted_completed_def)
  have 8: "map entry_id (take 3 (logs restarted_completed)) = [step_id 0, step_id 1, step_id 1]"
    by (simp add: restarted_completed_def entry_id_entry)
  have 10: "timers restarted_final = []" by (simp add: restarted_final_def)
  have 11: "length (logs restarted_final) = 15" by (simp add: restarted_final_def)
  show ?thesis
    by (rule conjI [OF 1 conjI [OF 2 conjI [OF funpow_restarted(2) conjI [OF 4 conjI [OF 5
          conjI [OF length_deploymentSteps conjI [OF 7 conjI [OF 8
          conjI [OF funpow_restarted(3) conjI [OF 10 11]]]]]]]]]])
qed

text \<open>
  C1, as amended. In a run that is activated while no timer is pending (as on a
  freshly mounted component) and is not activated again before its last timer has
  fired,
  in any execution, once the run has reached the
  completed state, where the test \<^verbatim>\<open>stepIndex >= deploymentSteps.length\<close>
  of \<^verbatim>\<open>processStep\<close> holds, the log has exactly as many entries as the catalog has
  steps, which is 8; entry \<open>k\<close> has the id, message, details and icon of step \<open>k\<close>
  of the catalog, and status \<open>Completed\<close>.
\<close>

theorem completed_run_log:
  assumes "isActive props" and "timers b = []" and "reachable props b s"
    and "length deploymentSteps \<le> last (stepIndex s)"
  shows "length deploymentSteps = 8 \<and> length (logs s) = length deploymentSteps \<and>
    (\<forall>k<length deploymentSteps.
       entry_id (logs s ! k) = step_id k \<and>
       message (logs s ! k) = Step.message (deploymentSteps ! k) \<and>
       details (logs s ! k) = Some (Step.details (deploymentSteps ! k)) \<and>
       icon (logs s ! k) = Step.icon (deploymentSteps ! k) \<and>
       status (logs s ! k) = Completed)"
proof -
  from assms have c: "completed_upto (length deploymentSteps) (logs s)"
    using reachable_single_run completed_in_full by blast
  show ?thesis
    using completed_upto_nth [OF c] completed_upto_length [OF c]
    by (simp add: length_deploymentSteps)
qed

theorem completed_run_log_witness:
  "isActive props0 \<and> reachable props0 (mount 0) (final_state 0) \<and>
   length deploymentSteps \<le> last (stepIndex (final_state 0)) \<and>
   length (logs (final_state 0)) = 8 \<and>
   entry_id (logs (final_state 0) ! 7) = step_id 7 \<and>
   status (logs (final_state 0) ! 7) = Completed \<and>
   status (logs (final_state 0) ! 0) = Completed"
proof -
  have a: "isActive props0" by (simp add: props0_def)
  have r: "reachable props0 (mount 0) (final_state 0)" using a by (rule reachable_final_state)
  have i: "length deploymentSteps \<le> last (stepIndex (final_state 0))"
    by (simp add: final_state_def)
  from completed_run_log [OF a timers_mount r i] a r i show ?thesis by simp
qed

text \<open>
  C2. As stated, for every run, the claim fails. With the second activation at time
  2000 as above, 33 timers fire; the 30th, a timer of the first run, calls
  \<open>onComplete\<close> while the last entry of the log, the one of step 7 of the second
  run, is still running; and when no timer is pending \<open>onComplete\<close> has been called
  twice since the second activation.
\<close>

theorem onComplete_once_counterexample:
  "reachable props0 (mount 0) (settling_state 0 0) \<and>
   restarted = effect props0 (settling_state 0 0) \<and>
   (fire_next ^^ 30) restarted = restarted_called \<and>
   onComplete_calls restarted_called = [resultPayload] \<and>
   status (last (logs restarted_called)) = Running \<and>
   timers restarted_called \<noteq> [] \<and>
   (fire_next ^^ 33) restarted = restarted_final \<and>
   timers restarted_final = [] \<and>
   onComplete_calls restarted_final = [resultPayload, resultPayload]"
proof -
  have 1: "reachable props0 (mount 0) (settling_state 0 0)"
    by (rule reachable_settling_state) (simp_all add: props0_def length_deploymentSteps)
  have 2: "restarted = effect props0 (settling_state 0 0)" by (rule restarted_def)
  have 4: "onComplete_calls restarted_called = [resultPayload]"
    by (simp add: restarted_called_def)
  have 5: "status (last (logs restarted_called)) = Running"
    by (simp add: restarted_called_def status_entry)
  have 6: "timers restarted_called \<noteq> []" by (simp add: restarted_called_def)
  have 8: "timers restarted_final = []" by (simp add: restarted_final_def)
  have 9: "onComplete_calls restarted_final = [resultPayload, resultPayload]"
    by (simp add: restarted_final_def)
  show ?thesis
    by (rule conjI [OF 1 conjI [OF 2 conjI [OF funpow_restarted(1) conjI [OF 4 conjI [OF 5
          conjI [OF 6 conjI [OF funpow_restarted(3) conjI [OF 8 9]]]]]]]])
qed

text \<open>
  C2, as amended. In a run that is activated while no timer is pending (as on a
  freshly mounted component) and is not activated again before its last timer has
  fired,
  whatever pending timer fires at each moment and whenever it
  fires: the timers that have fired are at most 17; no timer is pending exactly when
  17 have fired; the run has called \<open>onComplete\<close> once when 17 have fired and not
  at all before; and whenever it has called it, the log has one entry for each step
  of the catalog, all of them completed. Under the ideal clock the run ends after
  its 17 timers, with exactly one call.
\<close>

theorem onComplete_once:
  assumes "isActive props" and "timers b = []" and "(step ^^ n) (effect props b) s"
  shows "n \<le> 17 \<and> (timers s = [] \<longleftrightarrow> n = 17) \<and>
    onComplete_calls s = onComplete_calls b @ (if n = 17 then [resultPayload] else []) \<and>
    (onComplete_calls s \<noteq> onComplete_calls b \<longrightarrow>
       length (logs s) = length deploymentSteps \<and>
       (\<forall>e\<in>set (logs s). status e = Completed)) \<and>
    (\<exists>s'. run 17 (effect props b) = Some s' \<and>
       onComplete_calls s' = onComplete_calls b @ [resultPayload])"
proof -
  from relpow_run [OF assms] have sr: "single_run b s" and r: "remaining s + n = 17"
    by simp_all
  from r have n: "n \<le> 17" by simp
  from r remaining_0 [OF sr] have t: "timers s = [] \<longleftrightarrow> n = 17" by auto
  from single_run_calls [OF sr] t
  have c: "onComplete_calls s =
      onComplete_calls b @ (if n = 17 then [resultPayload] else [])" by simp
  have l: "onComplete_calls s \<noteq> onComplete_calls b \<longrightarrow>
       length (logs s) = length deploymentSteps \<and>
       (\<forall>e\<in>set (logs s). status e = Completed)"
    using single_run_called [OF sr] completed_upto_length completed_upto_all by blast
  have "single_run b (effect props b)"
    using effect_running [OF assms(1,2)] by (auto simp: single_run_def)
  from run_terminates [OF this, of 17] remaining_effect [OF assms(1,2)]
  obtain s' where "run 17 (effect props b) = Some s'" "finished b s'" by auto
  then have e: "\<exists>s'. run 17 (effect props b) = Some s' \<and>
       onComplete_calls s' = onComplete_calls b @ [resultPayload]"
    by (auto simp: finished_def)
  show ?thesis by (rule conjI [OF n conjI [OF t conjI [OF c conjI [OF l e]]]])
qed

theorem onComplete_once_witness:
  "isActive props0 \<and> timers (mount 0) = [] \<and>
   (step ^^ 17) (effect props0 (mount 0)) (final_state 0) \<and>
   timers (final_state 0) = [] \<and>
   onComplete_calls (final_state 0) = [resultPayload] \<and>
   length (logs (final_state 0)) = length deploymentSteps \<and>
   list_all (\<lambda>e. status e = Completed) (logs (final_state 0))"
proof -
  have a: "isActive props0" by (simp add: props0_def)
  have r: "(step ^^ 17) (effect props0 (mount 0)) (final_state 0)"
    using a by (rule relpow_final_state)
  have c: "onComplete_calls (final_state 0) \<noteq> onComplete_calls (mount 0)"
    by (simp add: final_state_def mount_def)
  note t = onComplete_once [OF a timers_mount r]
  from t have 1: "timers (final_state 0) = [] \<longleftrightarrow> (17::nat) = 17"
    by (rule conjunct2 [THEN conjunct1])
  then have 2: "timers (final_state 0) = []" by simp
  from t have "onComplete_calls (final_state 0) =
      onComplete_calls (mount 0) @ (if (17::nat) = 17 then [resultPayload] else [])"
    by (rule conjunct2 [THEN conjunct2, THEN conjunct1])
  then have 3: "onComplete_calls (final_state 0) = [resultPayload]"
    by (simp add: mount_def)
  from t have "onComplete_calls (final_state 0) \<noteq> onComplete_calls (mount 0) \<longrightarrow>
       length (logs (final_state 0)) = length deploymentSteps \<and>
       (\<forall>e\<in>set (logs (final_state 0)). status e = Completed)"
    by (rule conjunct2 [THEN conjunct2, THEN conjunct2, THEN conjunct1])
  with c have "length (logs (final_state 0)) = length deploymentSteps \<and>
       (\<forall>e\<in>set (logs (final_state 0)). status e = Completed)" by (rule rev_mp)
  then have 4: "length (logs (final_state 0)) = length deploymentSteps"
    and 5: "list_all (\<lambda>e. status e = Completed) (logs (final_state 0))"
    unfolding list_all_iff by (rule conjunct1, rule conjunct2)
  show ?thesis
    by (rule conjI [OF a conjI [OF timers_mount conjI [OF r conjI [OF 2 conjI [OF 3
          conjI [OF 4 5]]]]]])
qed





text \<open>
  C3. As stated, for every run and every execution, the claim fails. With the second
  activation at time 2000 as above, the entry of step 1 is appended at 2500 while the
  entry of step 0 is still running; and the 30th timer calls \<open>onComplete\<close> while the
  entry of step 7, the last one of the log, is still running.
\<close>

theorem step_ordering_counterexample:
  "reachable props0 (mount 0) (settling_state 0 0) \<and>
   restarted = effect props0 (settling_state 0 0) \<and>
   logs restarted = [entry 0 Running 2000] \<and>
   step restarted (fire_next restarted) \<and>
   logs (fire_next restarted) = logs restarted @ [entry 1 Running 2500] \<and>
   entry_id (logs (fire_next restarted) ! 0) = step_id 0 \<and>
   status (logs (fire_next restarted) ! 0) = Running \<and>
   entry_id (logs (fire_next restarted) ! 1) = step_id 1 \<and>
   (fire_next ^^ 30) restarted = restarted_called \<and>
   onComplete_calls restarted_called = [resultPayload] \<and>
   entry_id (last (logs restarted_called)) = step_id 7 \<and>
   status (last (logs restarted_called)) = Running"
proof -
  have 1: "reachable props0 (mount 0) (settling_state 0 0)"
    by (rule reachable_settling_state) (simp_all add: props0_def length_deploymentSteps)
  have 2: "restarted = effect props0 (settling_state 0 0)" by (rule restarted_def)
  have 3: "logs restarted = [entry 0 Running 2000]" by (simp add: restarted_eq)
  have 5: "logs (fire_next restarted) = logs restarted @ [entry 1 Running 2500]"
    unfolding fire_next_restarted by (simp add: restarted_eq)
  have 6: "entry_id (logs (fire_next restarted) ! 0) = step_id 0"
    by (simp add: fire_next_restarted entry_id_entry)
  have 7: "status (logs (fire_next restarted) ! 0) = Running"
    by (simp add: fire_next_restarted status_entry)
  have 8: "entry_id (logs (fire_next restarted) ! 1) = step_id 1"
    by (simp add: fire_next_restarted entry_id_entry)
  have 10: "onComplete_calls restarted_called = [resultPayload]"
    by (simp add: restarted_called_def)
  have 11: "entry_id (last (logs restarted_called)) = step_id 7"
    by (simp add: restarted_called_def entry_id_entry)
  have 12: "status (last (logs restarted_called)) = Running"
    by (simp add: restarted_called_def status_entry)
  show ?thesis
    by (rule conjI [OF 1 conjI [OF 2 conjI [OF 3 conjI [OF step_restarted conjI [OF 5
          conjI [OF 6 conjI [OF 7 conjI [OF 8 conjI [OF funpow_restarted(1) conjI [OF 10
          conjI [OF 11 12]]]]]]]]]]])
qed

text \<open>
  C3, as amended. In a run that is activated while no timer is pending (as on a
  freshly mounted component) and is not activated again before its last timer has
  fired,
  whatever pending timer fires at each moment and whenever it fires: the entry at
  position \<open>i\<close> of the log is the
  entry of step \<open>i\<close>; whenever the entry of a step \<open>i > 0\<close> is in the log, the entry
  of step \<open>i - 1\<close> is completed; a timer that appends an entry finds every entry of
  the log completed already, and the entry it appends is the one of the next step;
  whenever \<open>onComplete\<close> has been called, the log has one entry for each step, all
  completed; and the timer that calls \<open>onComplete\<close> finds the log so.
\<close>

theorem step_ordering:
  assumes "isActive props" and "timers b = []" and "reachable props b s"
  shows "(\<forall>i<length (logs s). entry_id (logs s ! i) = step_id i) \<and>
    (\<forall>i<length (logs s). 0 < i \<longrightarrow> status (logs s ! (i - 1)) = Completed) \<and>
    (\<forall>s'. step s s' \<longrightarrow> length (logs s) < length (logs s') \<longrightarrow>
       (\<forall>e\<in>set (logs s). status e = Completed) \<and>
       (\<exists>e. logs s' = logs s @ [e] \<and> entry_id e = step_id (length (logs s)))) \<and>
    (onComplete_calls s \<noteq> onComplete_calls b \<longrightarrow>
       length (logs s) = length deploymentSteps \<and>
       (\<forall>e\<in>set (logs s). status e = Completed)) \<and>
    (\<forall>s'. step s s' \<longrightarrow> onComplete_calls s' \<noteq> onComplete_calls s \<longrightarrow>
       length (logs s) = length deploymentSteps \<and>
       (\<forall>e\<in>set (logs s). status e = Completed))"
proof -
  from assms have sr: "single_run b s" by (rule reachable_single_run)
  have 1: "\<forall>i<length (logs s). entry_id (logs s ! i) = step_id i"
    using single_run_ids(1) [OF sr] by blast
  have 2: "\<forall>i<length (logs s). 0 < i \<longrightarrow> status (logs s ! (i - 1)) = Completed"
    using single_run_ids(2) [OF sr] by blast
  have 3: "\<forall>s'. step s s' \<longrightarrow> length (logs s) < length (logs s') \<longrightarrow>
       (\<forall>e\<in>set (logs s). status e = Completed) \<and>
       (\<exists>e. logs s' = logs s @ [e] \<and> entry_id e = step_id (length (logs s)))"
    using step_append_ordered [OF sr] by blast
  have 4: "onComplete_calls s \<noteq> onComplete_calls b \<longrightarrow>
       length (logs s) = length deploymentSteps \<and>
       (\<forall>e\<in>set (logs s). status e = Completed)"
    using single_run_called [OF sr] completed_upto_length completed_upto_all by blast
  have 5: "\<forall>s'. step s s' \<longrightarrow> onComplete_calls s' \<noteq> onComplete_calls s \<longrightarrow>
       length (logs s) = length deploymentSteps \<and>
       (\<forall>e\<in>set (logs s). status e = Completed)"
    using step_call_ordered [OF sr] by blast
  show ?thesis by (rule conjI [OF 1 conjI [OF 2 conjI [OF 3 conjI [OF 4 5]]]])
qed

theorem step_ordering_witness:
  "isActive props0 \<and> reachable props0 (mount 0) (settling_state 0 0) \<and>
   step (settling_state 0 0) (running_state 0 1) \<and>
   length (logs (settling_state 0 0)) < length (logs (running_state 0 1)) \<and>
   list_all (\<lambda>e. status e = Completed) (logs (settling_state 0 0)) \<and>
   (\<exists>e. logs (running_state 0 1) = logs (settling_state 0 0) @ [e] \<and>
      entry_id e = step_id (length (logs (settling_state 0 0)))) \<and>
   reachable props0 (mount 0) (finishing_state 0) \<and>
   step (finishing_state 0) (final_state 0) \<and>
   onComplete_calls (final_state 0) \<noteq> onComplete_calls (finishing_state 0) \<and>
   length (logs (finishing_state 0)) = length deploymentSteps \<and>
   list_all (\<lambda>e. status e = Completed) (logs (finishing_state 0))"
proof -
  have a: "isActive props0" by (simp add: props0_def)
  have r0: "reachable props0 (mount 0) (settling_state 0 0)"
    using a by (rule reachable_settling_state) (simp add: length_deploymentSteps)
  have st: "step (settling_state 0 0) (running_state 0 1)"
    using step_settling_state [of 0 0] by (simp add: length_deploymentSteps)
  have len: "length (logs (settling_state 0 0)) < length (logs (running_state 0 1))"
    unfolding logs_running_state_1 logs_settling_state_0 by simp
  have rf: "reachable props0 (mount 0) (finishing_state 0)"
    using a by (rule reachable_finishing_state)
  have sf: "step (finishing_state 0) (final_state 0)" by (rule step_finishing_state)
  have c: "onComplete_calls (final_state 0) \<noteq> onComplete_calls (finishing_state 0)"
    by (simp add: final_state_def finishing_state_def)
  from step_ordering [OF a timers_mount r0]
  have "\<forall>s'. step (settling_state 0 0) s' \<longrightarrow>
      length (logs (settling_state 0 0)) < length (logs s') \<longrightarrow>
      (\<forall>e\<in>set (logs (settling_state 0 0)). status e = Completed) \<and>
      (\<exists>e. logs s' = logs (settling_state 0 0) @ [e] \<and>
         entry_id e = step_id (length (logs (settling_state 0 0))))"
    by (rule conjunct2 [THEN conjunct2, THEN conjunct1])
  from this [rule_format, OF st len]
  have o1: "list_all (\<lambda>e. status e = Completed) (logs (settling_state 0 0))"
    and o2: "\<exists>e. logs (running_state 0 1) = logs (settling_state 0 0) @ [e] \<and>
      entry_id e = step_id (length (logs (settling_state 0 0)))"
    unfolding list_all_iff by (rule conjunct1, rule conjunct2)
  from step_ordering [OF a timers_mount rf]
  have "\<forall>s'. step (finishing_state 0) s' \<longrightarrow>
      onComplete_calls s' \<noteq> onComplete_calls (finishing_state 0) \<longrightarrow>
      length (logs (finishing_state 0)) = length deploymentSteps \<and>
      (\<forall>e\<in>set (logs (finishing_state 0)). status e = Completed)"
    by (rule conjunct2 [THEN conjunct2, THEN conjunct2, THEN conjunct2])
  from this [rule_format, OF sf c]
  have o3: "length (logs (finishing_state 0)) = length deploymentSteps"
    and o4: "list_all (\<lambda>e. status e = Completed) (logs (finishing_state 0))"
    unfolding list_all_iff by (rule conjunct1, rule conjunct2)
  show ?thesis
    by (rule conjI [OF a conjI [OF r0 conjI [OF st conjI [OF len conjI [OF o1 conjI [OF o2
          conjI [OF rf conjI [OF sf conjI [OF c conjI [OF o3 o4]]]]]]]]]])
qed




text \<open>
  C6. The prompt has no influence on the engine. For any two prompts \<open>p\<close> and \<open>q\<close>
  (the empty one included) and any state of the component, the effect leaves the same
  state behind: the same log (ids, messages, details, statuses, timestamps), the same
  timers with the same due times, the same indices. Hence the runs are the same
  after any number of timers, the same states are reachable in any execution, and
  the run of an active, freshly mounted component ends in the same state, which is
  the one given by the ideal clock whatever the prompt.
\<close>

theorem prompt_irrelevant:
  "effect \<lparr>isActive = a, prompt = p\<rparr> s = effect \<lparr>isActive = a, prompt = q\<rparr> s \<and>
   run n (effect \<lparr>isActive = a, prompt = p\<rparr> s) = run n (effect \<lparr>isActive = a, prompt = q\<rparr> s) \<and>
   reachable \<lparr>isActive = a, prompt = p\<rparr> b s' = reachable \<lparr>isActive = a, prompt = q\<rparr> b s' \<and>
   run 17 (effect \<lparr>isActive = True, prompt = p\<rparr> (mount t0)) = Some (final_state t0) \<and>
   run 17 (effect \<lparr>isActive = True, prompt = []\<rparr> (mount t0)) = Some (final_state t0)"
proof -
  have 1: "effect \<lparr>isActive = a, prompt = p\<rparr> s = effect \<lparr>isActive = a, prompt = q\<rparr> s"
    by (rule effect_prompt)
  have 2: "run n (effect \<lparr>isActive = a, prompt = p\<rparr> s) =
      run n (effect \<lparr>isActive = a, prompt = q\<rparr> s)"
    by (simp only: 1)
  have 3: "reachable \<lparr>isActive = a, prompt = p\<rparr> b s' =
      reachable \<lparr>isActive = a, prompt = q\<rparr> b s'"
    using reachable_prompt [of a p b s' q] reachable_prompt [of a q b s' p] by blast
  have 4: "run 17 (effect \<lparr>isActive = True, prompt = p\<rparr> (mount t0)) = Some (final_state t0)"
    by (rule run_effect) simp
  have 5: "run 17 (effect \<lparr>isActive = True, prompt = []\<rparr> (mount t0)) = Some (final_state t0)"
    by (rule run_effect) simp
  show ?thesis by (rule conjI [OF 1 conjI [OF 2 conjI [OF 3 conjI [OF 4 5]]]])
qed

theorem prompt_irrelevant_witness:
  "effect \<lparr>isActive = True, prompt = []\<rparr> (mount 0) =
     effect \<lparr>isActive = True, prompt = ascii ''a chat app''\<rparr> (mount 0) \<and>
   run 17 (effect \<lparr>isActive = True, prompt = ascii ''a chat app''\<rparr> (mount 0)) =
     run 17 (effect \<lparr>isActive = True, prompt = []\<rparr> (mount 0)) \<and>
   run 17 (effect \<lparr>isActive = True, prompt = ascii ''a chat app''\<rparr> (mount 0)) =
     Some (final_state 0)"
  using prompt_irrelevant [of True "[]" "mount 0" "ascii ''a chat app''" 17 "mount 0"
      "final_state 0" 0]
    prompt_irrelevant [of True "ascii ''a chat app''" "mount 0" "[]" 17 "mount 0"
      "final_state 0" 0]
  by blast

text \<open>
  C7. The call of \<open>onComplete\<close> appends the same record to the calls whatever the
  state of the component, and the fields of this record are the literals of the
  source. In a run with any prompt (a component activated while no timer is pending,
  as a freshly mounted one is; any execution after the activation) every call that
  the run has made has this record as its argument, and the run of a freshly mounted
  component under the ideal clock ends with exactly this one call.
\<close>

theorem payload_constant:
  assumes "timers b = []" and "reachable \<lparr>isActive = True, prompt = p\<rparr> b s"
  shows "(\<exists>cs. onComplete_calls s = onComplete_calls b @ cs \<and>
       (\<forall>x\<in>set cs.
          liveUrl x = ascii ''https://chat.my-app.com'' \<and>
          sourceRepo x = ascii ''https://github.com/tone-platform/my-chat-app'' \<and>
          configRepo x = ascii ''https://github.com/tone-platform/my-chat-app-config'' \<and>
          services x =
            [ascii ''Frontend'', ascii ''Backend'', ascii ''Redis'', ascii ''Database''] \<and>
          DeploymentResult.status x = ascii ''deployed'')) \<and>
    onComplete_calls (callOnComplete u) = onComplete_calls u @ [resultPayload] \<and>
    map_option onComplete_calls (run 17 (effect \<lparr>isActive = True, prompt = p\<rparr> (mount t0))) =
      Some [resultPayload]"
proof -
  have "isActive \<lparr>isActive = True, prompt = p\<rparr>" by simp
  from reachable_single_run [OF this assms] have sr: "single_run b s" .
  define cs where "cs = (if timers s = [] then [resultPayload] else [])"
  have "onComplete_calls s = onComplete_calls b @ cs"
    using single_run_calls [OF sr] by (simp add: cs_def)
  moreover have "\<forall>x\<in>set cs.
          liveUrl x = ascii ''https://chat.my-app.com'' \<and>
          sourceRepo x = ascii ''https://github.com/tone-platform/my-chat-app'' \<and>
          configRepo x = ascii ''https://github.com/tone-platform/my-chat-app-config'' \<and>
          services x =
            [ascii ''Frontend'', ascii ''Backend'', ascii ''Redis'', ascii ''Database''] \<and>
          DeploymentResult.status x = ascii ''deployed''"
    by (simp add: cs_def resultPayload_def)
  ultimately have 1: "\<exists>cs. onComplete_calls s = onComplete_calls b @ cs \<and>
       (\<forall>x\<in>set cs.
          liveUrl x = ascii ''https://chat.my-app.com'' \<and>
          sourceRepo x = ascii ''https://github.com/tone-platform/my-chat-app'' \<and>
          configRepo x = ascii ''https://github.com/tone-platform/my-chat-app-config'' \<and>
          services x =
            [ascii ''Frontend'', ascii ''Backend'', ascii ''Redis'', ascii ''Database''] \<and>
          DeploymentResult.status x = ascii ''deployed'')"
    by blast
  have 2: "onComplete_calls (callOnComplete u) = onComplete_calls u @ [resultPayload]"
    by (simp add: callOnComplete_def)
  have "run 17 (effect \<lparr>isActive = True, prompt = p\<rparr> (mount t0)) = Some (final_state t0)"
    by (rule run_effect) simp
  then have 3: "map_option onComplete_calls
      (run 17 (effect \<lparr>isActive = True, prompt = p\<rparr> (mount t0))) = Some [resultPayload]"
    by (simp add: final_state_def)
  show ?thesis by (rule conjI [OF 1 conjI [OF 2 3]])
qed

theorem payload_constant_witness:
  "timers (mount 0) = [] \<and>
   reachable \<lparr>isActive = True, prompt = ascii ''a chat app''\<rparr> (mount 0) (final_state 0) \<and>
   onComplete_calls (final_state 0) = [resultPayload] \<and>
   liveUrl (hd (onComplete_calls (final_state 0))) = ascii ''https://chat.my-app.com'' \<and>
   DeploymentResult.status (hd (onComplete_calls (final_state 0))) = ascii ''deployed''"
proof -
  have r: "reachable \<lparr>isActive = True, prompt = ascii ''a chat app''\<rparr> (mount 0) (final_state 0)"
    by (rule reachable_final_state) simp
  have c: "onComplete_calls (final_state 0) = [resultPayload]"
    by (simp add: final_state_def)
  have c0: "onComplete_calls (mount 0) = []" by (simp add: mount_def)
  from payload_constant [OF timers_mount r]
  obtain cs where cs: "onComplete_calls (final_state 0) = onComplete_calls (mount 0) @ cs"
    and f: "\<forall>x\<in>set cs.
          liveUrl x = ascii ''https://chat.my-app.com'' \<and>
          sourceRepo x = ascii ''https://github.com/tone-platform/my-chat-app'' \<and>
          configRepo x = ascii ''https://github.com/tone-platform/my-chat-app-config'' \<and>
          services x =
            [ascii ''Frontend'', ascii ''Backend'', ascii ''Redis'', ascii ''Database''] \<and>
          DeploymentResult.status x = ascii ''deployed''"
    by blast
  from cs have "cs = [resultPayload]" unfolding c c0 by simp
  with f have "liveUrl resultPayload = ascii ''https://chat.my-app.com'' \<and>
      DeploymentResult.status resultPayload = ascii ''deployed''"
    by simp
  then have "liveUrl (hd (onComplete_calls (final_state 0))) = ascii ''https://chat.my-app.com'' \<and>
      DeploymentResult.status (hd (onComplete_calls (final_state 0))) = ascii ''deployed''"
    unfolding c by simp
  with timers_mount r c show ?thesis by blast
qed

text \<open>
  C9. The effect, run on any state of the component (a run in flight or not) with
  \<^verbatim>\<open>isActive\<close> true, replaces the log by the single running entry of step 0, sets
  \<^verbatim>\<open>currentStep\<close> to 0, starts a new variable \<^verbatim>\<open>stepIndex\<close> at 0, and adds one timer
  to the queue; every timer that was pending is still pending, in its old place.
  Such a stale timer can fire and change the new log: when the second activation
  comes at time 2000, after the first run has completed step 0, the log is the one
  running entry of step 0, the settle timer of the first run is still in the queue,
  and when it fires at time 2500 it appends the entry of step 1 to the new log,
  which then holds two running entries.
\<close>

theorem reactivation_keeps_timers:
  "effect \<lparr>isActive = True, prompt = p\<rparr> s =
     s\<lparr>logs := [entry 0 Running (now s)], currentStep := 0, stepIndex := stepIndex s @ [0],
       timers := timers s @
         [\<lparr>due = now s + 2000,
           callback = CompleteStep (length (stepIndex s)) (step_id 0)\<rparr>]\<rparr> \<and>
   take (length (timers s)) (timers (effect \<lparr>isActive = True, prompt = p\<rparr> s)) = timers s \<and>
   reachable props0 (mount 0) (settling_state 0 0) \<and>
   timers (settling_state 0 0) = [\<lparr>due = 2500, callback = ProcessStep 0\<rparr>] \<and>
   restarted = effect props0 (settling_state 0 0) \<and>
   logs restarted = [entry 0 Running 2000] \<and>
   timers restarted =
     [\<lparr>due = 2500, callback = ProcessStep 0\<rparr>,
      \<lparr>due = 4000, callback = CompleteStep 1 (step_id 0)\<rparr>] \<and>
   step restarted (fire_next restarted) \<and>
   logs (fire_next restarted) = [entry 0 Running 2000, entry 1 Running 2500]"
proof -
  have 1: "effect \<lparr>isActive = True, prompt = p\<rparr> s =
     s\<lparr>logs := [entry 0 Running (now s)], currentStep := 0, stepIndex := stepIndex s @ [0],
       timers := timers s @
         [\<lparr>due = now s + 2000,
           callback = CompleteStep (length (stepIndex s)) (step_id 0)\<rparr>]\<rparr>"
    by (rule effect_active)
  have 2: "take (length (timers s)) (timers (effect \<lparr>isActive = True, prompt = p\<rparr> s)) =
      timers s"
    by (simp add: effect_active)
  have 3: "reachable props0 (mount 0) (settling_state 0 0)"
    by (rule reachable_settling_state) (simp_all add: props0_def length_deploymentSteps)
  have 4: "timers (settling_state 0 0) = [\<lparr>due = 2500, callback = ProcessStep 0\<rparr>]"
    using nth_duration(1) by (simp add: settling_state_def)
  have 5: "restarted = effect props0 (settling_state 0 0)" by (rule restarted_def)
  have 6: "logs restarted = [entry 0 Running 2000]" by (simp add: restarted_eq)
  have 7: "timers restarted =
     [\<lparr>due = 2500, callback = ProcessStep 0\<rparr>,
      \<lparr>due = 4000, callback = CompleteStep 1 (step_id 0)\<rparr>]"
    by (simp add: restarted_eq)
  have 8: "logs (fire_next restarted) = [entry 0 Running 2000, entry 1 Running 2500]"
    by (simp add: fire_next_restarted)
  show ?thesis
    by (rule conjI [OF 1 conjI [OF 2 conjI [OF 3 conjI [OF 4 conjI [OF 5 conjI [OF 6
          conjI [OF 7 conjI [OF step_restarted 8]]]]]]]])
qed

text \<open>
  C10. \<open>handleDeploy\<close> of the prompt screen calls \<open>onDeploy\<close>, with the prompt as it
  is, exactly when the trimmed prompt is not empty and \<^verbatim>\<open>isDeploying\<close> is false. It
  makes no call when every code unit of the prompt is white space (the empty prompt
  included), nor when \<^verbatim>\<open>isDeploying\<close> is true; the deploy button is disabled in
  exactly the cases in which no call is made; and a click with a blank prompt leaves
  the page as it is, so the engine is not activated.
\<close>

theorem handleDeploy_guard:
  "(handleDeploy p d = Some p \<longleftrightarrow> trim p \<noteq> [] \<and> \<not> d) \<and>
   (handleDeploy p d = None \<longleftrightarrow> trim p = [] \<or> d) \<and>
   (trim p = [] \<longleftrightarrow> (\<forall>c\<in>set p. isWhiteSpace c)) \<and>
   ((\<forall>c\<in>set p. isWhiteSpace c) \<longrightarrow> handleDeploy p d = None) \<and>
   (d \<longrightarrow> handleDeploy p d = None) \<and>
   (buttonDisabled p d \<longleftrightarrow> handleDeploy p d = None) \<and>
   ((\<forall>c\<in>set p. isWhiteSpace c) \<longrightarrow> clickDeploy p st = st) \<and>
   (appState (clickDeploy p st) \<noteq> appState st \<longrightarrow>
      trim p \<noteq> [] \<and> clickDeploy p st = st\<lparr>currentPrompt := p, appState := AppDeploying\<rparr>)"
proof -
  have 1: "handleDeploy p d = Some p \<longleftrightarrow> trim p \<noteq> [] \<and> \<not> d"
    by (simp add: handleDeploy_def truthy_def)
  have 2: "handleDeploy p d = None \<longleftrightarrow> trim p = [] \<or> d"
    by (simp add: handleDeploy_def truthy_def)
  have 3: "trim p = [] \<longleftrightarrow> (\<forall>c\<in>set p. isWhiteSpace c)" by (rule trim_Nil_iff)
  have 4: "(\<forall>c\<in>set p. isWhiteSpace c) \<longrightarrow> handleDeploy p d = None"
    using 2 3 by blast
  have 5: "d \<longrightarrow> handleDeploy p d = None" using 2 by blast
  have 6: "buttonDisabled p d \<longleftrightarrow> handleDeploy p d = None"
    by (simp add: buttonDisabled_def handleDeploy_def)
  have 7: "(\<forall>c\<in>set p. isWhiteSpace c) \<longrightarrow> clickDeploy p st = st"
    using 3 by (simp add: clickDeploy_def handleDeploy_def truthy_def)
  have 8: "appState (clickDeploy p st) \<noteq> appState st \<longrightarrow>
      trim p \<noteq> [] \<and> clickDeploy p st = st\<lparr>currentPrompt := p, appState := AppDeploying\<rparr>"
    by (simp add: clickDeploy_def handleDeploy_def truthy_def Index_handleDeploy_def)
  show ?thesis
    by (rule conjI [OF 1 conjI [OF 2 conjI [OF 3 conjI [OF 4 conjI [OF 5 conjI [OF 6
          conjI [OF 7 8]]]]]]])
qed

theorem handleDeploy_guard_witness:
  "list_all isWhiteSpace [0x0020, 0x3000, 0x0009, 0x000A] \<and>
   handleDeploy [0x0020, 0x3000, 0x0009, 0x000A] False = None \<and>
   clickDeploy [0x0020, 0x3000, 0x0009, 0x000A] Index0 = Index0 \<and>
   handleDeploy (ascii ''a chat app'') True = None \<and>
   trim (ascii '' a chat app '') = ascii ''a chat app'' \<and>
   handleDeploy (ascii '' a chat app '') False = Some (ascii '' a chat app '') \<and>
   appState (clickDeploy (ascii '' a chat app '') Index0) = AppDeploying \<and>
   currentPrompt (clickDeploy (ascii '' a chat app '') Index0) = ascii '' a chat app ''"
proof -
  have w: "\<forall>c\<in>set [0x0020, 0x3000, 0x0009, 0x000A]. isWhiteSpace c"
    by (simp add: isWhiteSpace_def)
  then have 1: "list_all isWhiteSpace [0x0020, 0x3000, 0x0009, 0x000A]"
    by (simp add: list_all_iff)
  note g = handleDeploy_guard [of "[0x0020, 0x3000, 0x0009, 0x000A]" False Index0]
  from g w have 2: "handleDeploy [0x0020, 0x3000, 0x0009, 0x000A] False = None" by blast
  from g w have 3: "clickDeploy [0x0020, 0x3000, 0x0009, 0x000A] Index0 = Index0" by blast
  from handleDeploy_guard [of "ascii ''a chat app''" True Index0]
  have 4: "handleDeploy (ascii ''a chat app'') True = None" by blast
  have 5: "trim (ascii '' a chat app '') = ascii ''a chat app''"
    by (simp add: trim_def ascii_def isWhiteSpace_def)
  then have t: "trim (ascii '' a chat app '') \<noteq> []" by (simp add: ascii_def)
  note h = handleDeploy_guard [of "ascii '' a chat app ''" False Index0]
  from h t have 6: "handleDeploy (ascii '' a chat app '') False = Some (ascii '' a chat app '')"
    by blast
  then have 7: "appState (clickDeploy (ascii '' a chat app '') Index0) = AppDeploying"
    and 8: "currentPrompt (clickDeploy (ascii '' a chat app '') Index0) = ascii '' a chat app ''"
    by (simp_all add: clickDeploy_def Index_handleDeploy_def)
  show ?thesis
    by (rule conjI [OF 1 conjI [OF 2 conjI [OF 3 conjI [OF 4 conjI [OF 5 conjI [OF 6
          conjI [OF 7 8]]]]]]])
qed

end
